theory Spec2Isabelle
  imports Main "HOL-Library.Word" "HOL-Library.Monad_Syntax"
begin

unbundle bit_operations_syntax

section \<open>Data model of the synchronizer (isync.h, sync.c)\<close>

text \<open>
  The two sides of a channel: \<^verbatim>\<open>#define M 0\<close> (master) and \<^verbatim>\<open>#define S 1\<close> (slave).
  \<open>other t\<close> is the C expression \<^verbatim>\<open>1-t\<close>. A two-element C array indexed by a side is a
  pair, read with \<open>sel\<close> and written with \<open>upd\<close>.
\<close>

datatype side = M | S

fun other :: "side \<Rightarrow> side" where
  "other M = S"
| "other S = M"

type_synonym 'a arr2 = "'a \<times> 'a"

fun sel :: "'a arr2 \<Rightarrow> side \<Rightarrow> 'a" where
  "sel (a, b) M = a"
| "sel (a, b) S = b"

fun upd :: "'a arr2 \<Rightarrow> side \<Rightarrow> 'a \<Rightarrow> 'a arr2" where
  "upd (a, b) M v = (v, b)"
| "upd (a, b) S v = (a, v)"

text \<open>A C condition \<^verbatim>\<open>x & mask\<close>: some bit of the mask is set in \<open>x\<close>.\<close>

definition tst :: "'a::len word \<Rightarrow> 'a word \<Rightarrow> bool" where
  "tst x bits = (x AND bits \<noteq> 0)"

text \<open>Message flags (\<^verbatim>\<open>F_*\<close>), message status bits (\<^verbatim>\<open>M_*\<close>), sync record status bits
  (\<^verbatim>\<open>S_*\<close>), all held in an \<^verbatim>\<open>unsigned char\<close>.\<close>

definition F_DRAFT :: "8 word" where "F_DRAFT = 1"
definition F_FLAGGED :: "8 word" where "F_FLAGGED = 2"
definition F_ANSWERED :: "8 word" where "F_ANSWERED = 4"
definition F_SEEN :: "8 word" where "F_SEEN = 8"
definition F_DELETED :: "8 word" where "F_DELETED = 16"

definition M_RECENT :: "8 word" where "M_RECENT = 1"
definition M_DEAD :: "8 word" where "M_DEAD = 2"
definition M_FLAGS :: "8 word" where "M_FLAGS = 4"
definition M_TIME :: "8 word" where "M_TIME = 8"

definition S_DEAD :: "8 word" where "S_DEAD = 1"
definition S_DONE :: "8 word" where "S_DONE = 2"
fun S_DEL :: "side \<Rightarrow> 8 word" where
  "S_DEL M = 4"
| "S_DEL S = 8"
definition S_EXPIRED :: "8 word" where "S_EXPIRED = 16"
definition S_EXPIRE :: "8 word" where "S_EXPIRE = 32"
definition S_EXP_S :: "8 word" where "S_EXP_S = 128"

text \<open>Channel operations (\<^verbatim>\<open>OP_*\<close>), store open options (\<^verbatim>\<open>OPEN_*\<close>), the per-side phase
  bits (\<^verbatim>\<open>ST_*\<close>), driver results (\<^verbatim>\<open>DRV_*\<close>) and sync results (\<^verbatim>\<open>SYNC_*\<close>).\<close>

definition OP_NEW :: "32 word" where "OP_NEW = 1"
definition OP_RENEW :: "32 word" where "OP_RENEW = 2"
definition OP_DELETE :: "32 word" where "OP_DELETE = 4"
definition OP_FLAGS :: "32 word" where "OP_FLAGS = 8"
definition OP_EXPUNGE :: "32 word" where "OP_EXPUNGE = 16"
definition OP_CREATE :: "32 word" where "OP_CREATE = 32"

definition OPEN_OLD :: "32 word" where "OPEN_OLD = 1"
definition OPEN_NEW :: "32 word" where "OPEN_NEW = 2"
definition OPEN_FLAGS :: "32 word" where "OPEN_FLAGS = 4"
definition OPEN_SIZE :: "32 word" where "OPEN_SIZE = 8"
definition OPEN_EXPUNGE :: "32 word" where "OPEN_EXPUNGE = 32"
definition OPEN_SETFLAGS :: "32 word" where "OPEN_SETFLAGS = 64"
definition OPEN_APPEND :: "32 word" where "OPEN_APPEND = 128"
definition OPEN_FIND :: "32 word" where "OPEN_FIND = 256"
definition OPEN_TIME :: "32 word" where "OPEN_TIME = 512"

definition ST_FOUND_NEW :: "32 word" where "ST_FOUND_NEW = 4"
definition ST_SENT_TRASH :: "32 word" where "ST_SENT_TRASH = 16"
definition ST_CLOSED :: "32 word" where "ST_CLOSED = 32"
definition ST_SENT_CANCEL :: "32 word" where "ST_SENT_CANCEL = 64"
definition ST_CANCELED :: "32 word" where "ST_CANCELED = 128"
definition ST_SELECTED :: "32 word" where "ST_SELECTED = 256"
definition ST_DID_EXPUNGE :: "32 word" where "ST_DID_EXPUNGE = 65536"
text \<open>\<^verbatim>\<open>S_FIND\<close> is \<^verbatim>\<open>1<<8\<close> and is kept in \<^verbatim>\<open>svars->state[t]\<close>, beside the \<^verbatim>\<open>ST_*\<close> bits.\<close>
definition S_FIND :: "32 word" where "S_FIND = 256"

datatype drv_sts = DRV_OK | DRV_MSG_BAD | DRV_BOX_BAD | DRV_CANCELED

definition SYNC_FAIL :: "32 word" where "SYNC_FAIL = 1"
definition SYNC_FAIL_ALL :: "32 word" where "SYNC_FAIL_ALL = 2"
fun SYNC_BAD :: "side \<Rightarrow> 32 word" where
  "SYNC_BAD M = 4"
| "SYNC_BAD S = 8"

definition TUIDL :: nat where "TUIDL = 12"

text \<open>
  \<^verbatim>\<open>message_t\<close>. The list link is the position in the store's message list; the
  back-pointer \<^verbatim>\<open>srec\<close> is the index of the sync record in \<^verbatim>\<open>svars->srecs\<close>.
  \<^verbatim>\<open>char tuid[TUIDL]\<close> is a list of characters.
\<close>

record message =
  msg_srec :: "nat option"
  msg_size :: nat
  msg_uid :: int
  msg_flags :: "8 word"
  msg_status :: "8 word"
  msg_tuid :: "char list"

text \<open>
  \<^verbatim>\<open>sync_rec_t\<close>. \<^verbatim>\<open>msg[t]\<close> is the index of the paired message in
  \<^verbatim>\<open>svars->ctx[t]->msgs\<close>.
\<close>

record sync_rec =
  uid :: "int arr2"
  msg :: "nat option arr2"
  status :: "8 word"
  flags :: "8 word"
  aflags :: "8 word arr2"
  dflags :: "8 word arr2"
  tuid :: "char list"

text \<open>The first byte of a \<^verbatim>\<open>char[TUIDL]\<close> array (\<^verbatim>\<open>tuid[0]\<close>), and the assignment
  \<^verbatim>\<open>tuid[0] = 0\<close> that marks the TUID as empty.\<close>

fun tuid0 :: "char list \<Rightarrow> char" where
  "tuid0 [] = CHR 0x00"
| "tuid0 (c # cs) = c"

fun clear_tuid :: "char list \<Rightarrow> char list" where
  "clear_tuid [] = []"
| "clear_tuid (c # cs) = CHR 0x00 # cs"

record store_conf =
  trash :: "string option"
  max_size :: nat
  trash_remote_new :: bool
  trash_only_new :: bool

record store =
  conf :: store_conf
  msgs :: "message list"
  uidvalidity :: int
  uidnext :: int
  opts :: "32 word"
  count :: int
  recent :: int

record channel_conf =
  stores :: "store_conf arr2"
  ops :: "32 word arr2"
  max_messages :: nat

text \<open>
  The calls the engine issues to a driver. A driver completes a call later through the
  callback the engine passed; the callbacks are the functions \<open>flags_set_del\<close>,
  \<open>flags_set_sync\<close>, \<open>msg_copied\<close>, \<open>msg_trashed\<close>, \<open>msg_rtrashed\<close> below.
\<close>

datatype callback = CB_flags_set_del | CB_flags_set_sync | CB_msg_copied | CB_msg_trashed
  | CB_msg_rtrashed | CB_cancel_done | CB_msgs_found_new | CB_box_closed

datatype drv_call =
    Set_flags side "nat option" int "8 word" "8 word" callback nat
  | Copy_msg side nat "nat option" callback
  | Trash_msg side nat
  | Find_new_msgs side
  | Close_box side
  | Cancel side
  | Commit side
  | Load_box side int int int "int list"

text \<open>The error messages of \<^verbatim>\<open>box_selected\<close>; the number is the line the message names.\<close>

datatype error =
    Cannot_create_lock
  | Channel_locked
  | Incomplete_state_header
  | Invalid_state_header
  | Incomplete_state_entry nat
  | Invalid_state_entry nat
  | Cannot_read_state
  | Incomplete_journal_header
  | Incompatible_journal_version
  | Incomplete_journal_entry nat
  | Malformed_journal_entry nat
  | Nonexistent_entry nat
  | Unrecognized_journal_entry nat
  | Cannot_read_journal
  | Uidvalidity_changed side
  | Cannot_write_new
  | Cannot_write_journal

text \<open>What the engine prints (\<open>Warn_lost\<close>, \<open>Info_conflict\<close>, \<open>Err\<close>) and the end of the channel
  run: \<open>Bail r\<close> is \<^verbatim>\<open>sync_bail\<close>, which frees the records and hands \<^verbatim>\<open>svars->ret\<close> to the
  completion callback.\<close>

datatype diag = Warn_lost nat side | Info_conflict int int | Err error | Bail "32 word"

text \<open>
  The files of a channel: the sync state \<^verbatim>\<open>dname\<close>, the journal \<^verbatim>\<open>jname\<close>, the new state
  \<^verbatim>\<open>nname\<close> and the lock file \<^verbatim>\<open>lname\<close>. \<^verbatim>\<open>fopen(..., "r")\<close> fails with \<^verbatim>\<open>ENOENT\<close> on
  \<open>Absent\<close>, with another error on \<open>Unreadable\<close>, and reads the text of \<open>Content\<close>.
\<close>

datatype diskfile = Absent | Unreadable | Content string

record files =
  dfile :: diskfile
  jfile :: diskfile
  nfile :: diskfile
  lfile :: bool

text \<open>What the environment decides: whether the lock file can be created and locked,
  whether the two files can be opened for writing, the option set a driver's
  \<^verbatim>\<open>prepare_opts\<close> leaves in \<^verbatim>\<open>ctx->opts\<close> (a driver may extend the set it is given), the
  descriptor \<^verbatim>\<open>open\<close> returns for the lock file, and \<^verbatim>\<open>DFlags & KEEPJOURNAL\<close>.\<close>

datatype lock_res = Lock_ok | Lock_open_failed | Lock_held

record env =
  lock :: lock_res
  n_writable :: bool
  j_writable :: bool
  prepare_opts :: "side \<Rightarrow> 32 word \<Rightarrow> 32 word"
  lock_fd :: int
  keep_journal :: bool

text \<open>
  \<^verbatim>\<open>sync_vars_t\<close>. \<open>jfp\<close> and \<open>nfp\<close> hold what was written to the journal and to the new
  state file, one element per \<^verbatim>\<open>Fprintf\<close> call. \<open>fs\<close> are the files that \<^verbatim>\<open>dname\<close>,
  \<^verbatim>\<open>jname\<close>, \<^verbatim>\<open>nname\<close> and \<^verbatim>\<open>lname\<close> name. \<open>calls\<close> logs the driver calls issued and
  \<open>diags\<close> the messages printed, in order. \<^verbatim>\<open>nsrecs\<close> is the length of \<open>srecs\<close>.
\<close>

record sync_vars =
  jfp :: "string list"
  nfp :: "string list"
  srecs :: "sync_rec list"
  chan :: channel_conf
  ctx :: "store arr2"
  state :: "32 word arr2"
  ret :: "32 word"
  new_total :: "int arr2"
  new_done :: "int arr2"
  flags_total :: "int arr2"
  flags_done :: "int arr2"
  trash_total :: "int arr2"
  trash_done :: "int arr2"
  maxuid :: "int arr2"
  uidval :: "int arr2"
  newuid :: "int arr2"
  smaxxuid :: int
  lfd :: int
  fs :: files
  calls :: "drv_call list"
  diags :: "diag list"

definition INT_MAX :: int where "INT_MAX = 2147483647"

section \<open>Text output: \<^verbatim>\<open>%d\<close>, \<^verbatim>\<open>%u\<close> and the flag letters\<close>

definition digit_char :: "nat \<Rightarrow> char" where
  "digit_char d = char_of (48 + d)"

function show_nat :: "nat \<Rightarrow> string" where
  "show_nat n = (if n < 10 then [digit_char n] else show_nat (n div 10) @ [digit_char (n mod 10)])"
  by pat_completeness auto
termination
  by (relation "measure id") auto

definition show_int :: "int \<Rightarrow> string" where
  "show_int i = (if i < 0 then CHR ''-'' # show_nat (nat (- i)) else show_nat (nat i))"

definition Flags :: "char list" where
  "Flags = [CHR ''D'', CHR ''F'', CHR ''R'', CHR ''S'', CHR ''T'']"

text \<open>\<^verbatim>\<open>make_flags\<close>: the letter of every set bit \<open>i < 5\<close>, in the order of \<open>Flags\<close>.\<close>

fun make_flags_from :: "nat \<Rightarrow> char list \<Rightarrow> 8 word \<Rightarrow> string" where
  "make_flags_from i [] fl = []"
| "make_flags_from i (c # cs) fl =
     (if fl AND push_bit i 1 \<noteq> 0 then c # make_flags_from (Suc i) cs fl
      else make_flags_from (Suc i) cs fl)"

definition make_flags :: "8 word \<Rightarrow> string" where
  "make_flags fl = make_flags_from 0 Flags fl"

text \<open>\<^verbatim>\<open>parse_flags\<close>: \<open>buf\<close> is a NUL-terminated C string; reading at its end gives the
  terminating NUL, which is no flag letter.\<close>

fun parse_flags_from :: "nat \<Rightarrow> char list \<Rightarrow> string \<Rightarrow> 8 word \<Rightarrow> 8 word" where
  "parse_flags_from i [] buf fl = fl"
| "parse_flags_from i (c # cs) buf fl =
     (case buf of
        [] \<Rightarrow> parse_flags_from (Suc i) cs buf fl
      | b # bs \<Rightarrow>
          if b = c then parse_flags_from (Suc i) cs bs (fl OR push_bit i 1)
          else parse_flags_from (Suc i) cs buf fl)"

definition parse_flags :: "string \<Rightarrow> 8 word" where
  "parse_flags buf = parse_flags_from 0 Flags buf 0"

section \<open>Phase B: flag changes of an existing pair (\<^verbatim>\<open>box_loaded\<close>, "synchronizing old entries")\<close>

definition get_msg :: "sync_vars \<Rightarrow> side \<Rightarrow> nat option \<Rightarrow> message option" where
  "get_msg svars t p =
     (case p of None \<Rightarrow> None
      | Some k \<Rightarrow> if k < length (msgs (sel (ctx svars) t)) then Some (msgs (sel (ctx svars) t) ! k) else None)"

definition show_uids :: "sync_rec \<Rightarrow> string" where
  "show_uids srec = show_int (sel (uid srec) M) @ '' '' @ show_int (sel (uid srec) S)"

text \<open>The body of the loop \<^verbatim>\<open>for (t = 0; t < 2; t++)\<close> for the record at index \<open>i\<close>, with
  \<open>del\<close> computed before the loop.\<close>

definition sync_old_side :: "bool arr2 \<Rightarrow> nat \<Rightarrow> side \<Rightarrow> sync_vars \<Rightarrow> sync_vars" where
  "sync_old_side del i t svars =
     (let srec0 = srecs svars ! i;
          srec1 = srec0\<lparr>aflags := upd (aflags srec0) t 0, dflags := upd (dflags srec0) t 0\<rparr>;
          mt = get_msg svars t (sel (msg srec1) t);
          mo = get_msg svars (other t) (sel (msg srec1) (other t));
          srec = (case mt of
                    Some m \<Rightarrow> if tst (msg_flags m) F_DELETED
                              then srec1\<lparr>status := status srec1 OR S_DEL t\<rparr> else srec1
                  | None \<Rightarrow> srec1);
          svars1 = svars\<lparr>srecs := (srecs svars)[i := srec]\<rparr>
      in if sel (uid srec) t = 0 then svars1
         else if sel del (other t) then
           (let svars2 =
                  (case mt of
                     Some m \<Rightarrow> if tst (msg_status m) M_FLAGS \<and> msg_flags m \<noteq> flags srec
                               then svars1\<lparr>diags := diags svars1 @
                                      [Info_conflict (sel (uid srec) M) (sel (uid srec) S)]\<rparr>
                               else svars1
                   | None \<Rightarrow> svars1)
            in if tst (sel (ops (chan svars)) t) OP_DELETE
               then svars2\<lparr>flags_total := upd (flags_total svars2) t (sel (flags_total svars2) t + 1),
                           calls := calls svars2 @
                             [Set_flags t (sel (msg srec) t) (sel (uid srec) t) F_DELETED 0
                                CB_flags_set_del i]\<rparr>
               else svars2)
         else (case mo of
             None \<Rightarrow> svars1
           | Some src \<Rightarrow>
               if sel (uid srec) t < 0 then svars1
               else if \<not> sel del t then
                 (if tst (sel (ops (chan svars)) t) OP_FLAGS then
                    (let sflags0 = msg_flags src;
                         sflags = (if tst (status srec) (S_EXPIRE OR S_EXPIRED) \<and> t = M
                                   then sflags0 AND NOT F_DELETED else sflags0);
                         srec2 = srec\<lparr>aflags := upd (aflags srec) t (sflags AND NOT (flags srec)),
                                       dflags := upd (dflags srec) t (NOT sflags AND flags srec)\<rparr>
                     in svars1\<lparr>srecs := (srecs svars)[i := srec2]\<rparr>)
                  else svars1)
               else svars1))"

text \<open>The body of the loop over the old records, for the record at index \<open>i\<close>.\<close>

definition sync_old_entry :: "nat \<Rightarrow> sync_vars \<Rightarrow> sync_vars" where
  "sync_old_entry i svars =
     (let srec = srecs svars ! i in
      if tst (status srec) (S_DEAD OR S_DONE) then svars
      else
        (let noM = (get_msg svars M (sel (msg srec) M) = None \<and> tst (opts (sel (ctx svars) M)) OPEN_OLD);
             noS = (get_msg svars S (sel (msg srec) S) = None \<and> tst (opts (sel (ctx svars) S)) OPEN_OLD)
         in if noM \<and> noS
            then svars\<lparr>srecs := (srecs svars)[i := srec\<lparr>status := S_DEAD\<rparr>],
                       jfp := jfp svars @ [''- '' @ show_uids srec @ ''\<newline>'']\<rparr>
            else
              (let del = (noM \<and> sel (uid srec) M > 0, noS \<and> sel (uid srec) S > 0)
               in sync_old_side del i S (sync_old_side del i M svars))))"

section \<open>Committing a flag change (\<^verbatim>\<open>flags_set_sync_p2\<close>)\<close>

definition Fprintf_j :: "string \<Rightarrow> sync_vars \<Rightarrow> sync_vars" where
  "Fprintf_j line svars = svars\<lparr>jfp := jfp svars @ [line]\<rparr>"

definition set_srec :: "nat \<Rightarrow> sync_rec \<Rightarrow> sync_vars \<Rightarrow> sync_vars" where
  "set_srec i srec svars = svars\<lparr>srecs := (srecs svars)[i := srec]\<rparr>"



section \<open>TUID pairing (\<^verbatim>\<open>match_tuids\<close>)\<close>

text \<open>\<^verbatim>\<open>tmsg->tuid[0] && !memcmp( tmsg->tuid, srec->tuid, TUIDL )\<close>\<close>

definition tuid_match :: "message \<Rightarrow> char list \<Rightarrow> bool" where
  "tuid_match tmsg tu = (tuid0 (msg_tuid tmsg) \<noteq> CHR 0x00 \<and> take TUIDL (msg_tuid tmsg) = take TUIDL tu)"

text \<open>One scan of a stretch of the message list, whose first element has index \<open>k\<close>: the
  index of the first message that is not \<^verbatim>\<open>M_DEAD\<close> and carries the TUID.\<close>

fun find_tuid :: "char list \<Rightarrow> message list \<Rightarrow> nat \<Rightarrow> nat option" where
  "find_tuid tu [] k = None"
| "find_tuid tu (tmsg # rest) k =
     (if tst (msg_status tmsg) M_DEAD then find_tuid tu rest (Suc k)
      else if tuid_match tmsg tu then Some k
      else find_tuid tu rest (Suc k))"

text \<open>The two scans of \<^verbatim>\<open>match_tuids\<close>: from the cursor \<open>ntmsg\<close> to the end of the list, then
  from the head up to the cursor.\<close>

definition scan_tuid :: "char list \<Rightarrow> message list \<Rightarrow> nat \<Rightarrow> nat option" where
  "scan_tuid tu ms ntmsg =
     (case find_tuid tu (drop ntmsg ms) ntmsg of
        Some k \<Rightarrow> Some k
      | None \<Rightarrow> find_tuid tu (take ntmsg ms) 0)"

definition set_msg_srec :: "side \<Rightarrow> nat \<Rightarrow> nat option \<Rightarrow> sync_vars \<Rightarrow> sync_vars" where
  "set_msg_srec t k p svars =
     (let st = sel (ctx svars) t
      in svars\<lparr>ctx := upd (ctx svars) t (st\<lparr>msgs := (msgs st)[k := (msgs st ! k)\<lparr>msg_srec := p\<rparr>]\<rparr>)\<rparr>)"

definition side_char :: "side \<Rightarrow> char \<Rightarrow> char \<Rightarrow> char" where
  "side_char t a b = (case t of M \<Rightarrow> a | S \<Rightarrow> b)"

text \<open>
  The loop state is the sync context, the cursor \<open>ntmsg\<close> (an index into the message list
  of side \<open>t\<close>; the null pointer is the length of the list) and \<open>num_lost\<close>. The first scan
  runs from the cursor to the end of the list, the second from the head up to the cursor.
\<close>

definition match_tuids_rec :: "side \<Rightarrow> nat \<Rightarrow> sync_vars \<times> nat \<times> nat \<Rightarrow> sync_vars \<times> nat \<times> nat" where
  "match_tuids_rec t i = (\<lambda>(svars, ntmsg, num_lost).
     (let srec = srecs svars ! i; ms = msgs (sel (ctx svars) t)
      in if tst (status srec) S_DEAD then (svars, ntmsg, num_lost)
         else if sel (uid srec) t = - 2 \<and> tuid0 (tuid srec) \<noteq> CHR 0x00 then
           (case scan_tuid (tuid srec) ms ntmsg of
              None \<Rightarrow>
                (set_srec i (srec\<lparr>flags := 0, tuid := clear_tuid (tuid srec)\<rparr>)
                   (Fprintf_j (''& '' @ show_uids srec @ ''\<newline>'') svars),
                 ntmsg, Suc num_lost)
            | Some k \<Rightarrow>
                (set_srec i (srec\<lparr>uid := upd (uid srec) t (msg_uid (ms ! k)),
                                   tuid := clear_tuid (tuid srec)\<rparr>)
                   (set_msg_srec t k (Some i)
                      (Fprintf_j (side_char t CHR ''<'' CHR ''>'' # '' '' @ show_uids srec @ '' ''
                                    @ show_int (msg_uid (ms ! k)) @ ''\<newline>'') svars)),
                 Suc k, num_lost))
         else (svars, ntmsg, num_lost)))"

definition match_tuids :: "side \<Rightarrow> sync_vars \<Rightarrow> sync_vars" where
  "match_tuids t svars =
     (case fold (match_tuids_rec t) [0..<length (srecs svars)]
             (svars, length (msgs (sel (ctx svars) t)), 0) of
        (svars', ntmsg, num_lost) \<Rightarrow>
          if num_lost \<noteq> 0 then svars'\<lparr>diags := diags svars' @ [Warn_lost num_lost t]\<rparr> else svars')"

text \<open>A record whose TUID lookup on side \<open>t\<close> fails: live, \<^verbatim>\<open>uid[t] == -2\<close>, a TUID, and no
  live message of the side carries its twelve bytes.\<close>

definition tuid_lost :: "side \<Rightarrow> message list \<Rightarrow> sync_rec \<Rightarrow> bool" where
  "tuid_lost t ms srec =
     (\<not> tst (status srec) S_DEAD \<and> sel (uid srec) t = - 2 \<and> tuid0 (tuid srec) \<noteq> CHR 0x00 \<and>
      list_all (\<lambda>tmsg. tst (msg_status tmsg) M_DEAD \<or> take TUIDL (msg_tuid tmsg) \<noteq> take TUIDL (tuid srec)) ms)"

text \<open>What \<^verbatim>\<open>match_tuids\<close> does to a lost record, and the journal line it writes for it.\<close>

definition lost_rec :: "sync_rec \<Rightarrow> sync_rec" where
  "lost_rec srec = srec\<lparr>flags := 0, tuid := clear_tuid (tuid srec)\<rparr>"

definition lost_line :: "sync_rec \<Rightarrow> string" where
  "lost_line srec = ''& '' @ show_uids srec @ ''\<newline>''"

definition unlink_msg :: "message \<Rightarrow> message" where
  "unlink_msg tmsg = tmsg\<lparr>msg_srec := None\<rparr>"

section \<open>Phase A: new messages (\<^verbatim>\<open>box_loaded\<close>, "synchronizing new entries")\<close>

definition msg_copied_p2 :: "nat \<Rightarrow> side \<Rightarrow> nat \<Rightarrow> int \<Rightarrow> sync_vars \<Rightarrow> sync_vars" where
  "msg_copied_p2 i t k new_uid svars =
     (let srec = srecs svars ! i;
          svars1 = (if sel (uid srec) t \<noteq> new_uid
                    then set_srec i (srec\<lparr>uid := upd (uid srec) t new_uid, tuid := clear_tuid (tuid srec)\<rparr>)
                           (Fprintf_j (side_char t CHR ''<'' CHR ''>'' # '' '' @ show_uids srec @ '' ''
                                         @ show_int new_uid @ ''\<newline>'') svars)
                    else svars);
          tmsg = msgs (sel (ctx svars1) (other t)) ! k
      in if msg_srec tmsg = None then
           (let svars2 = set_msg_srec (other t) k (Some i) svars1
            in if sel (maxuid svars2) (other t) < msg_uid tmsg
               then Fprintf_j (side_char t CHR '')'' CHR ''('' # '' '' @ show_int (msg_uid tmsg) @ ''\<newline>'')
                      (svars2\<lparr>maxuid := upd (maxuid svars2) (other t) (msg_uid tmsg)\<rparr>)
               else svars2)
         else svars1)"

text \<open>One character of a fresh TUID from one \<^verbatim>\<open>arc4_getbyte()\<close> result.\<close>

definition tuid_char :: "8 word \<Rightarrow> char" where
  "tuid_char b =
     (let t2 = unat (b AND 0x3f)
      in if t2 < 26 then char_of (t2 + 65)
         else if t2 < 52 then char_of (t2 + 97 - 26)
         else if t2 < 62 then char_of (t2 + 48 - 52)
         else if t2 = 62 then CHR ''+'' else CHR ''/'')"

text \<open>
  The test that selects a message of side \<open>1-t\<close> for propagation to side \<open>t\<close>.
\<close>

definition is_new_msg :: "side \<Rightarrow> message \<Rightarrow> sync_vars \<Rightarrow> bool" where
  "is_new_msg t tmsg svars =
     (case msg_srec tmsg of
        Some i \<Rightarrow> sel (uid (srecs svars ! i)) t < 0 \<and>
                  (if sel (uid (srecs svars ! i)) t = - 1 then tst (sel (ops (chan svars)) t) OP_RENEW
                   else tst (sel (ops (chan svars)) t) OP_NEW)
      | None \<Rightarrow> tst (sel (ops (chan svars)) t) OP_NEW)"

text \<open>
  The body of the loop over the messages of side \<open>1-t\<close>, for the message at index \<open>k\<close>.
  \<open>junk\<close> is the content of the memory \<^verbatim>\<open>nfmalloc\<close> returns for a new record (the C code
  leaves \<^verbatim>\<open>msg\<close>, \<^verbatim>\<open>aflags\<close>, \<^verbatim>\<open>dflags\<close> and \<^verbatim>\<open>tuid[1..]\<close> as they are); \<open>rnd\<close> are
  the bytes \<^verbatim>\<open>arc4_getbyte\<close> returns.
\<close>

definition sync_new_msg :: "sync_rec \<Rightarrow> 8 word list \<Rightarrow> side \<Rightarrow> nat \<Rightarrow> sync_vars \<Rightarrow> sync_vars" where
  "sync_new_msg junk rnd t k svars =
     (let tmsg = msgs (sel (ctx svars) (other t)) ! k
      in if \<not> is_new_msg t tmsg svars then svars
         else if tst (sel (ops (chan svars)) t) OP_EXPUNGE \<and> tst (msg_flags tmsg) F_DELETED then svars
         else
           (let (i, svars1) =
                  (case msg_srec tmsg of
                     Some i \<Rightarrow> (i, set_srec i ((srecs svars ! i)\<lparr>status := status (srecs svars ! i) OR S_DONE\<rparr>) svars)
                   | None \<Rightarrow>
                       (let srec = junk\<lparr>status := S_DONE, flags := 0, tuid := clear_tuid (tuid junk),
                                        uid := upd (upd (uid junk) (other t) (msg_uid tmsg)) t (- 2)\<rparr>
                        in (length (srecs svars),
                            Fprintf_j (''+ '' @ show_uids srec @ ''\<newline>'')
                              (svars\<lparr>srecs := srecs svars @ [srec]\<rparr>))))
            in if tst (msg_flags tmsg) F_FLAGGED \<or> msg_size tmsg \<le> max_size (sel (stores (chan svars)) t) then
                 (let svars2 =
                        (if msg_flags tmsg \<noteq> 0
                         then Fprintf_j (''* '' @ show_uids (srecs svars1 ! i) @ '' ''
                                           @ show_nat (unat (msg_flags tmsg)) @ ''\<newline>'')
                                (set_srec i ((srecs svars1 ! i)\<lparr>flags := msg_flags tmsg\<rparr>) svars1)
                         else svars1);
                      srec = (srecs svars2 ! i)\<lparr>tuid := map tuid_char (take TUIDL rnd)\<rparr>;
                      svars3 = (set_srec i srec svars2)
                                 \<lparr>new_total := upd (new_total svars2) t (sel (new_total svars2) t + 1)\<rparr>;
                      svars4 = Fprintf_j (''# '' @ show_uids srec @ '' '' @ take TUIDL (tuid srec) @ ''\<newline>'') svars3
                  in svars4\<lparr>calls := calls svars4 @ [Copy_msg t k (Some i) CB_msg_copied]\<rparr>)
               else
                 (case msg_srec tmsg of
                    Some _ \<Rightarrow> svars1
                  | None \<Rightarrow> msg_copied_p2 i t k (- 1) svars1)))"

definition mt_inv :: "side \<Rightarrow> sync_vars \<Rightarrow> nat \<Rightarrow> sync_vars \<times> nat \<times> nat \<Rightarrow> bool" where
  "mt_inv t svars n = (\<lambda>(svars', nt, nl).
     nl = length (filter (tuid_lost t (msgs (sel (ctx svars) t))) (take n (srecs svars)))
     \<and> length (srecs svars') = length (srecs svars)
     \<and> (\<forall>j\<ge>n. srecs svars' ! j = srecs svars ! j)
     \<and> map unlink_msg (msgs (sel (ctx svars') t)) = map unlink_msg (msgs (sel (ctx svars) t))
     \<and> diags svars' = diags svars
     \<and> (\<exists>a. jfp svars' = jfp svars @ a)
     \<and> (\<forall>j<n. tuid_lost t (msgs (sel (ctx svars) t)) (srecs svars ! j) \<longrightarrow>
            srecs svars' ! j = lost_rec (srecs svars ! j)
            \<and> (\<exists>a b. jfp svars' = jfp svars @ a @ [lost_line (srecs svars ! j)] @ b)))"

section \<open>Text input: \<^verbatim>\<open>fgets\<close>, \<^verbatim>\<open>strlen\<close> and \<^verbatim>\<open>sscanf\<close>\<close>

text \<open>
  The successive results of \<^verbatim>\<open>fgets( buf, 128, f )\<close> on a text: each call returns the
  characters up to and including the next newline, at most 127 of them; at the end of the
  text it returns what is left, and nothing on an empty rest. \<open>room\<close> is the number of
  characters the current call may still store and \<open>cur\<close> what it has stored.
\<close>

fun fgets_chunks :: "nat \<Rightarrow> string \<Rightarrow> string \<Rightarrow> string list" where
  "fgets_chunks room cur [] = (if cur = [] then [] else [cur])"
| "fgets_chunks room cur (c # cs) =
     (if c = CHR ''\<newline>'' \<or> room \<le> 1 then (cur @ [c]) # fgets_chunks 127 [] cs
      else fgets_chunks (room - 1) (cur @ [c]) cs)"

definition fgets_all :: "string \<Rightarrow> string list" where
  "fgets_all txt = fgets_chunks 127 [] txt"

text \<open>The C string a buffer holds ends before the first NUL. \<open>line_ok\<close> is the test
  \<^verbatim>\<open>(t = strlen( buf )) && buf[t - 1] == '\n'\<close>.\<close>

definition cstr :: "string \<Rightarrow> string" where
  "cstr buf = takeWhile (\<lambda>c. c \<noteq> CHR 0x00) buf"

definition line_ok :: "string \<Rightarrow> bool" where
  "line_ok buf = (cstr buf \<noteq> [] \<and> last (cstr buf) = CHR ''\<newline>'')"

definition isspace :: "char \<Rightarrow> bool" where
  "isspace c = (c = CHR '' '' \<or> c = CHR 0x09 \<or> c = CHR ''\<newline>'' \<or> c = CHR 0x0B \<or> c = CHR 0x0C
                \<or> c = CHR 0x0D)"

definition isdigit :: "char \<Rightarrow> bool" where
  "isdigit c = (48 \<le> (of_char c :: nat) \<and> (of_char c :: nat) \<le> 57)"

definition skip_ws :: "string \<Rightarrow> string" where
  "skip_ws s = dropWhile isspace s"

definition digits_val :: "string \<Rightarrow> nat" where
  "digits_val ds = foldl (\<lambda>a c. 10 * a + (of_char c - 48)) 0 ds"

text \<open>
  The conversion \<^verbatim>\<open>%d\<close>: white space is skipped, then an optional sign and at least one
  digit are read. The result is the number and the rest of the input. (On a number
  outside the range of \<^verbatim>\<open>int\<close> the C conversion is undefined; the model gives the number.)
\<close>

definition scan_d :: "string \<Rightarrow> (int \<times> string) option" where
  "scan_d s =
     (let s1 = skip_ws s;
          neg = (case s1 of c # _ \<Rightarrow> c = CHR ''-'' | [] \<Rightarrow> False);
          s2 = (case s1 of c # r \<Rightarrow> if c = CHR ''-'' \<or> c = CHR ''+'' then r else s1 | [] \<Rightarrow> s1);
          ds = takeWhile isdigit s2
      in if ds = [] then None
         else Some (if neg then - int (digits_val ds) else int (digits_val ds), dropWhile isdigit s2))"

text \<open>The conversion \<^verbatim>\<open>%Ns\<close>: white space is skipped, then at most \<open>n\<close> characters that are
  not white space are read, at least one.\<close>

definition scan_s :: "nat \<Rightarrow> string \<Rightarrow> (string \<times> string) option" where
  "scan_s n s =
     (let s1 = skip_ws s; w = take n (takeWhile (\<lambda>c. \<not> isspace c) s1)
      in if w = [] then None else Some (w, drop (length w) s1))"

text \<open>A character of the format that is not white space: the next input character must
  be that one.\<close>

definition scan_lit :: "char \<Rightarrow> string \<Rightarrow> string option" where
  "scan_lit c s = (case s of x # r \<Rightarrow> if x = c then Some r else None | [] \<Rightarrow> None)"

section \<open>Reading the sync state (\<^verbatim>\<open>box_selected\<close>)\<close>

text \<open>
  The header: \<^verbatim>\<open>sscanf( buf, "%63s %63s", buf1, buf2 ) != 2\<close>, then
  \<^verbatim>\<open>sscanf( buf1, "%d:%d", ... ) < 2\<close> and \<^verbatim>\<open>sscanf( buf2, "%d:%d:%d", ... ) < 3\<close>.
  The result is \<open>uidval[M]\<close>, \<open>maxuid[M]\<close>, \<open>uidval[S]\<close>, \<open>smaxxuid\<close>, \<open>maxuid[S]\<close>.
\<close>

definition parse_header :: "string \<Rightarrow> (int \<times> int \<times> int \<times> int \<times> int) option" where
  "parse_header buf =
     do {
       (buf1, r1) \<leftarrow> scan_s 63 buf;
       (buf2, r2) \<leftarrow> scan_s 63 r1;
       (uvm, a1) \<leftarrow> scan_d buf1;
       a2 \<leftarrow> scan_lit CHR '':'' a1;
       (mum, a3) \<leftarrow> scan_d a2;
       (uvs, b1) \<leftarrow> scan_d buf2;
       b2 \<leftarrow> scan_lit CHR '':'' b1;
       (smx, b3) \<leftarrow> scan_d b2;
       b4 \<leftarrow> scan_lit CHR '':'' b3;
       (mus, b5) \<leftarrow> scan_d b4;
       Some (uvm, mum, uvs, smx, mus)
     }"

text \<open>An entry: \<^verbatim>\<open>fbuf[0] = 0; sscanf( buf, "%d %d %15s", &t1, &t2, fbuf ) < 2\<close>.\<close>

definition parse_entry :: "string \<Rightarrow> (int \<times> int \<times> string) option" where
  "parse_entry buf =
     do {
       (t1, r1) \<leftarrow> scan_d buf;
       (t2, r2) \<leftarrow> scan_d r1;
       Some (t1, t2, case scan_s 15 r2 of None \<Rightarrow> [] | Some (fbuf, _) \<Rightarrow> fbuf)
     }"

text \<open>The record of an entry. \<open>junk\<close> is the memory \<^verbatim>\<open>nfmalloc\<close> returned: \<^verbatim>\<open>aflags\<close>,
  \<^verbatim>\<open>dflags\<close> and \<^verbatim>\<open>tuid[1..]\<close> keep what it held.\<close>

definition entry_srec :: "sync_rec \<Rightarrow> int \<Rightarrow> int \<Rightarrow> string \<Rightarrow> sync_rec" where
  "entry_srec junk t1 t2 fbuf =
     (case fbuf of
        c # r \<Rightarrow>
          if c = CHR ''X''
          then junk\<lparr>uid := (t1, t2), msg := (None, None), status := S_EXPIRE OR S_EXPIRED,
                    flags := parse_flags r, tuid := clear_tuid (tuid junk)\<rparr>
          else junk\<lparr>uid := (t1, t2), msg := (None, None), status := 0,
                    flags := parse_flags fbuf, tuid := clear_tuid (tuid junk)\<rparr>
      | [] \<Rightarrow> junk\<lparr>uid := (t1, t2), msg := (None, None), status := 0,
                   flags := parse_flags fbuf, tuid := clear_tuid (tuid junk)\<rparr>)"

fun read_entries :: "sync_rec \<Rightarrow> nat \<Rightarrow> string list \<Rightarrow> sync_rec list \<Rightarrow> error + sync_rec list" where
  "read_entries junk line [] recs = Inr recs"
| "read_entries junk line (buf # rest) recs =
     (if \<not> line_ok buf then Inl (Incomplete_state_entry (Suc line))
      else case parse_entry (cstr buf) of
             None \<Rightarrow> Inl (Invalid_state_entry (Suc line))
           | Some (t1, t2, fbuf) \<Rightarrow> read_entries junk (Suc line) rest (recs @ [entry_srec junk t1 t2 fbuf]))"

definition read_state :: "sync_rec \<Rightarrow> sync_vars \<Rightarrow> error + sync_vars" where
  "read_state junk svars =
     (case dfile (fs svars) of
        Absent \<Rightarrow> Inr svars
      | Unreadable \<Rightarrow> Inl Cannot_read_state
      | Content txt \<Rightarrow>
          (case fgets_all txt of
             [] \<Rightarrow> Inl Incomplete_state_header
           | buf # rest \<Rightarrow>
               if \<not> line_ok buf then Inl Incomplete_state_header
               else case parse_header (cstr buf) of
                      None \<Rightarrow> Inl Invalid_state_header
                    | Some (uvm, mum, uvs, smx, mus) \<Rightarrow>
                        (case read_entries junk 1 rest (srecs svars) of
                           Inl e \<Rightarrow> Inl e
                         | Inr recs \<Rightarrow>
                             Inr (svars\<lparr>uidval := (uvm, uvs), maxuid := (mum, mus), smaxxuid := smx,
                                        srecs := recs\<rparr>))))"

section \<open>Replaying the journal (\<^verbatim>\<open>box_selected\<close>)\<close>

text \<open>
  A journal line as the \<^verbatim>\<open>sscanf\<close> calls read it: the opcode \<^verbatim>\<open>buf[0]\<close> and one, two or
  three numbers read at \<^verbatim>\<open>buf + 2\<close>; for \<^verbatim>\<open>#\<close> two numbers and the twelve characters of the
  TUID. A line of one character has \<^verbatim>\<open>buf + 2\<close> behind its terminator; its opcode is the
  newline, which no case accepts, so the line is rejected whatever the stale bytes are.
\<close>

datatype jline = J1 char int | J2 char int int | J3 char int int int | JT int int string

definition parse_jline :: "string \<Rightarrow> jline option" where
  "parse_jline buf =
     (case buf of
        [] \<Rightarrow> None
      | [c] \<Rightarrow> None
      | c # _ # arg \<Rightarrow>
          if c = CHR ''#'' then
            do {
              (t1, r1) \<leftarrow> scan_d arg;
              (t2, r2) \<leftarrow> scan_d r1;
              (let t3 = length arg - length (skip_ws r2)
               in if t3 = 0 \<or> int (length buf) - int t3 \<noteq> int TUIDL + 3 then None
                  else Some (JT t1 t2 (take TUIDL (drop (t3 + 2) buf))))
            }
          else if c = CHR ''('' \<or> c = CHR '')'' \<or> c = CHR ''{'' \<or> c = CHR ''}'' then
            do { (t1, r1) \<leftarrow> scan_d arg; Some (J1 c t1) }
          else if c = CHR ''+'' \<or> c = CHR ''&'' \<or> c = CHR ''-'' \<or> c = CHR ''|'' \<or> c = CHR ''/''
                  \<or> c = CHR 0x5C then
            do { (t1, r1) \<leftarrow> scan_d arg; (t2, r2) \<leftarrow> scan_d r1; Some (J2 c t1 t2) }
          else
            do { (t1, r1) \<leftarrow> scan_d arg; (t2, r2) \<leftarrow> scan_d r1; (t3, r3) \<leftarrow> scan_d r2;
                 Some (J3 c t1 t2 t3) })"

text \<open>The search for the record of an entry: from the record found last (\<open>cur\<close>, the
  variable \<^verbatim>\<open>srec\<close>) to the end of the list, then from the head up to it. With the null
  pointer in \<open>cur\<close> the first scan is empty and the second covers the list.\<close>

fun find_uids :: "int \<Rightarrow> int \<Rightarrow> sync_rec list \<Rightarrow> nat \<Rightarrow> nat option" where
  "find_uids t1 t2 [] k = None"
| "find_uids t1 t2 (srec # rest) k =
     (if sel (uid srec) M = t1 \<and> sel (uid srec) S = t2 then Some k else find_uids t1 t2 rest (Suc k))"

definition find_srec :: "int \<Rightarrow> int \<Rightarrow> sync_rec list \<Rightarrow> nat option \<Rightarrow> nat option" where
  "find_srec t1 t2 recs cur =
     (case cur of
        None \<Rightarrow> find_uids t1 t2 recs 0
      | Some c \<Rightarrow>
          (case find_uids t1 t2 (drop c recs) c of
             Some k \<Rightarrow> Some k
           | None \<Rightarrow> find_uids t1 t2 (take c recs) 0))"

text \<open>The \<^verbatim>\<open>switch (buf[0])\<close> on the record found. The result is the record and
  \<open>smaxxuid\<close>; \<open>None\<close> is the \<^verbatim>\<open>default\<close> case.\<close>

definition jline_srec :: "jline \<Rightarrow> sync_rec \<Rightarrow> int \<Rightarrow> (sync_rec \<times> int) option" where
  "jline_srec jl srec smx =
     (case jl of
        J1 c t1 \<Rightarrow> None
      | JT t1 t2 tu \<Rightarrow> Some (srec\<lparr>tuid := tu\<rparr>, smx)
      | J2 c t1 t2 \<Rightarrow>
          if c = CHR ''-'' then Some (srec\<lparr>status := S_DEAD\<rparr>, smx)
          else if c = CHR ''&'' then Some (srec\<lparr>flags := 0, tuid := clear_tuid (tuid srec)\<rparr>, smx)
          else if c = CHR 0x5C then
            Some (if tst (status srec) S_EXPIRED then srec\<lparr>status := status srec OR S_EXPIRE\<rparr>
                  else srec\<lparr>status := status srec AND NOT S_EXPIRE\<rparr>, smx)
          else if c = CHR ''/'' then
            Some (if tst (status srec) S_EXPIRE
                  then (srec\<lparr>status := status srec OR S_EXPIRED\<rparr>,
                        if smx < sel (uid srec) S then sel (uid srec) S else smx)
                  else (srec\<lparr>status := status srec AND NOT S_EXPIRED\<rparr>, smx))
          else None
      | J3 c t1 t2 t3 \<Rightarrow>
          if c = CHR ''<'' then Some (srec\<lparr>uid := upd (uid srec) M t3, tuid := clear_tuid (tuid srec)\<rparr>, smx)
          else if c = CHR ''>'' then Some (srec\<lparr>uid := upd (uid srec) S t3, tuid := clear_tuid (tuid srec)\<rparr>, smx)
          else if c = CHR ''*'' then Some (srec\<lparr>flags := word_of_int t3\<rparr>, smx)
          else if c = CHR ''~'' then
            Some (if t3 \<noteq> 0 then srec\<lparr>status := status srec OR S_EXPIRE\<rparr>
                  else srec\<lparr>status := status srec AND NOT S_EXPIRE\<rparr>, smx)
          else None)"

text \<open>The numbers \<^verbatim>\<open>t1\<close> and \<^verbatim>\<open>t2\<close> the search uses.\<close>

fun jline_uids :: "jline \<Rightarrow> int \<times> int" where
  "jline_uids (J1 c t1) = (t1, 0)"
| "jline_uids (J2 c t1 t2) = (t1, t2)"
| "jline_uids (J3 c t1 t2 t3) = (t1, t2)"
| "jline_uids (JT t1 t2 tu) = (t1, t2)"

text \<open>One entry. The loop state is the context and the variable \<^verbatim>\<open>srec\<close>.\<close>

definition replay_jline :: "sync_rec \<Rightarrow> nat \<Rightarrow> jline \<Rightarrow> sync_vars \<times> nat option
    \<Rightarrow> error + sync_vars \<times> nat option" where
  "replay_jline junk line jl = (\<lambda>(svars, cur).
     (case jl of
        J1 c t1 \<Rightarrow>
          Inr (if c = CHR ''('' then svars\<lparr>maxuid := upd (maxuid svars) M t1\<rparr>
               else if c = CHR '')'' then svars\<lparr>maxuid := upd (maxuid svars) S t1\<rparr>
               else if c = CHR ''{'' then svars\<lparr>newuid := upd (newuid svars) M t1\<rparr>
               else svars\<lparr>newuid := upd (newuid svars) S t1\<rparr>, cur)
      | _ \<Rightarrow>
          (case jline_uids jl of (t1, t2) \<Rightarrow>
             if jl = J2 CHR ''|'' t1 t2 then Inr (svars\<lparr>uidval := (t1, t2)\<rparr>, cur)
             else if jl = J2 CHR ''+'' t1 t2 then
               Inr (svars\<lparr>srecs := srecs svars @
                            [junk\<lparr>uid := (t1, t2), msg := (None, None), status := 0, flags := 0,
                                  tuid := clear_tuid (tuid junk)\<rparr>]\<rparr>,
                    Some (length (srecs svars)))
             else
               (case find_srec t1 t2 (srecs svars) cur of
                  None \<Rightarrow> Inl (Nonexistent_entry line)
                | Some i \<Rightarrow>
                    (case jline_srec jl (srecs svars ! i) (smaxxuid svars) of
                       None \<Rightarrow> Inl (Unrecognized_journal_entry line)
                     | Some (srec, smx) \<Rightarrow>
                         Inr (svars\<lparr>srecs := (srecs svars)[i := srec], smaxxuid := smx\<rparr>, Some i))))))"

fun replay_lines :: "sync_rec \<Rightarrow> nat \<Rightarrow> string list \<Rightarrow> sync_vars \<times> nat option
    \<Rightarrow> error + sync_vars \<times> nat option" where
  "replay_lines junk line [] st = Inr st"
| "replay_lines junk line (buf # rest) st =
     (if \<not> line_ok buf then Inl (Incomplete_journal_entry (Suc line))
      else case parse_jline (cstr buf) of
             None \<Rightarrow> Inl (Malformed_journal_entry (Suc line))
           | Some jl \<Rightarrow>
               (case replay_jline junk (Suc line) jl st of
                  Inl e \<Rightarrow> Inl e
                | Inr st' \<Rightarrow> replay_lines junk (Suc line) rest st'))"

text \<open>Replaying a journal text atop a context: the version line, then the entries.\<close>

definition replay_journal :: "sync_rec \<Rightarrow> string \<Rightarrow> sync_vars \<Rightarrow> error + sync_vars" where
  "replay_journal junk txt svars =
     (case fgets_all txt of
        [] \<Rightarrow> Inr svars
      | buf # rest \<Rightarrow>
          if \<not> line_ok buf then Inl Incomplete_journal_header
          else if take 2 buf \<noteq> ''2\<newline>'' then Inl Incompatible_journal_version
          else case replay_lines junk 1 rest (svars, None) of
                 Inl e \<Rightarrow> Inl e
               | Inr (svars', cur) \<Rightarrow> Inr svars')"

text \<open>
  The journal part of \<^verbatim>\<open>box_selected\<close>: the journal is read when it can be opened, and
  replayed when \<^verbatim>\<open>stat( nname )\<close> succeeds and the journal has a first line. The result
  holds \<^verbatim>\<open>line != 0\<close>, which says that a journal was replayed.
\<close>

definition read_journal :: "sync_rec \<Rightarrow> sync_vars \<Rightarrow> error + sync_vars \<times> bool" where
  "read_journal junk svars =
     (case jfile (fs svars) of
        Absent \<Rightarrow> Inr (svars, False)
      | Unreadable \<Rightarrow> Inl Cannot_read_journal
      | Content txt \<Rightarrow>
          if nfile (fs svars) \<noteq> Absent \<and> fgets_all txt \<noteq> [] then
            (case replay_journal junk txt svars of
               Inl e \<Rightarrow> Inl e
             | Inr svars' \<Rightarrow> Inr (svars', True))
          else Inr (svars, False))"

section \<open>Ending a run (\<^verbatim>\<open>sync_bail\<close>, \<^verbatim>\<open>Fclose\<close>, \<^verbatim>\<open>cancel_sync\<close>)\<close>

text \<open>
  \<^verbatim>\<open>sync_bail2\<close> and \<^verbatim>\<open>sync_bail1\<close> free the names, close the lock descriptor and pass
  \<^verbatim>\<open>svars->ret\<close> to the completion callback; \<^verbatim>\<open>sync_bail\<close> frees the records and removes the
  lock file first. (The model keeps the record list, so that the final records can be
  looked at.)
\<close>

definition sync_bail2 :: "sync_vars \<Rightarrow> sync_vars" where
  "sync_bail2 svars = svars\<lparr>diags := diags svars @ [Bail (ret svars)]\<rparr>"

definition sync_bail1 :: "sync_vars \<Rightarrow> sync_vars" where
  "sync_bail1 svars = sync_bail2 svars"

definition sync_bail :: "sync_vars \<Rightarrow> sync_vars" where
  "sync_bail svars = sync_bail1 (svars\<lparr>fs := (fs svars)\<lparr>lfile := False\<rparr>\<rparr>)"

text \<open>\<^verbatim>\<open>Fclose\<close> of the new state and of the journal: what was printed is in the file. The
  journal was opened for appending.\<close>

definition Fclose_nfp :: "sync_vars \<Rightarrow> sync_vars" where
  "Fclose_nfp svars = svars\<lparr>fs := (fs svars)\<lparr>nfile := Content (concat (nfp svars))\<rparr>\<rparr>"

definition Fclose_jfp :: "sync_vars \<Rightarrow> sync_vars" where
  "Fclose_jfp svars =
     svars\<lparr>fs := (fs svars)\<lparr>jfile := Content ((case jfile (fs svars) of Content old \<Rightarrow> old | _ \<Rightarrow> [])
                                               @ concat (jfp svars))\<rparr>\<rparr>"

definition or_state :: "side \<Rightarrow> 32 word \<Rightarrow> sync_vars \<Rightarrow> sync_vars" where
  "or_state t b svars = svars\<lparr>state := upd (state svars) t (sel (state svars) t OR b)\<rparr>"

definition cancel_done :: "side \<Rightarrow> sync_vars \<Rightarrow> sync_vars" where
  "cancel_done t svars =
     (let svars1 = or_state t ST_CANCELED svars
      in if tst (sel (state svars1) (other t)) ST_CANCELED then
           (if lfd svars1 \<noteq> 0 then sync_bail (Fclose_jfp (Fclose_nfp svars1)) else sync_bail2 svars1)
         else svars1)"

text \<open>The body of the loop of \<^verbatim>\<open>cancel_sync\<close> for one side, and the loop with its
  \<^verbatim>\<open>break\<close>. The driver's \<^verbatim>\<open>cancel\<close> completes through \<open>cancel_done\<close>.\<close>

definition cancel_side :: "side \<Rightarrow> sync_vars \<Rightarrow> sync_vars" where
  "cancel_side t svars =
     (if tst (ret svars) (SYNC_BAD t) then cancel_done t svars
      else if \<not> tst (sel (state svars) t) ST_SENT_CANCEL
      then (or_state t ST_SENT_CANCEL svars)\<lparr>calls := calls svars @ [Cancel t]\<rparr>
      else svars)"

definition cancel_sync :: "sync_vars \<Rightarrow> sync_vars" where
  "cancel_sync svars =
     (let other_state = sel (state svars) S; svars1 = cancel_side M svars
      in if tst other_state ST_CANCELED then svars1 else cancel_side S svars1)"

definition check_cancel :: "sync_vars \<Rightarrow> bool" where
  "check_cancel svars = tst (sel (state svars) M OR sel (state svars) S) (ST_SENT_CANCEL OR ST_CANCELED)"

text \<open>\<^verbatim>\<open>check_ret\<close>: the context after the check, and whether the caller returns.\<close>

definition check_ret :: "drv_sts \<Rightarrow> sync_vars \<Rightarrow> sync_vars \<times> bool" where
  "check_ret sts svars =
     (if sts = DRV_CANCELED then (svars, True)
      else if sts = DRV_BOX_BAD then (cancel_sync (svars\<lparr>ret := ret svars OR SYNC_FAIL\<rparr>), True)
      else (svars, check_cancel svars))"

section \<open>The final purge and commit (\<^verbatim>\<open>box_closed_p2\<close>)\<close>

text \<open>The record is gone on side \<open>t\<close>:
  \<^verbatim>\<open>(srec->status & S_DEL(t)) && (svars->state[t] & ST_DID_EXPUNGE)\<close>.\<close>

definition expunged :: "sync_vars \<Rightarrow> sync_rec \<Rightarrow> side \<Rightarrow> bool" where
  "expunged svars srec t = (tst (status srec) (S_DEL t) \<and> tst (sel (state svars) t) ST_DID_EXPUNGE)"

text \<open>The loop that computes \<^verbatim>\<open>minwuid\<close>.\<close>

fun purge_minwuid :: "sync_vars \<Rightarrow> sync_rec list \<Rightarrow> int \<Rightarrow> int" where
  "purge_minwuid svars [] minwuid = minwuid"
| "purge_minwuid svars (srec # rest) minwuid =
     (if tst (status srec) S_DEAD then purge_minwuid svars rest minwuid
      else if \<not> ((sel (uid srec) S \<le> 0 \<or> expunged svars srec S) \<and>
                 (sel (uid srec) M \<le> 0 \<or> expunged svars srec M \<or> tst (status srec) S_EXPIRED)) \<and>
              smaxxuid svars < sel (uid srec) S \<and> minwuid > sel (uid srec) M
      then purge_minwuid svars rest (sel (uid srec) M)
      else purge_minwuid svars rest minwuid)"

text \<open>The body of the purge loop for the record at index \<open>i\<close>.\<close>

definition purge_rec :: "int \<Rightarrow> nat \<Rightarrow> sync_vars \<Rightarrow> sync_vars" where
  "purge_rec minwuid i svars =
     (let srec = srecs svars ! i
      in if tst (status srec) S_DEAD then svars
         else if sel (uid srec) S \<le> 0 \<or> expunged svars srec S then
           (if sel (uid srec) M \<le> 0 \<or> expunged svars srec M \<or>
               (tst (status srec) S_EXPIRED \<and> sel (maxuid svars) M \<ge> sel (uid srec) M \<and>
                minwuid > sel (uid srec) M)
            then Fprintf_j (''- '' @ show_uids srec @ ''\<newline>'') (set_srec i (srec\<lparr>status := S_DEAD\<rparr>) svars)
            else if sel (uid srec) S > 0
            then set_srec i (srec\<lparr>uid := upd (uid srec) S 0\<rparr>)
                   (Fprintf_j (''> '' @ show_uids srec @ '' 0\<newline>'') svars)
            else svars)
         else if sel (uid srec) M > 0 \<and> expunged svars srec M
         then set_srec i (srec\<lparr>uid := upd (uid srec) M 0\<rparr>)
                (Fprintf_j (''< '' @ show_uids srec @ '' 0\<newline>'') svars)
         else svars)"

definition purge :: "sync_vars \<Rightarrow> sync_vars" where
  "purge svars =
     (if tst (sel (state svars) M OR sel (state svars) S) ST_DID_EXPUNGE then
        (let minwuid = (if smaxxuid svars \<noteq> 0 then purge_minwuid svars (srecs svars) INT_MAX else INT_MAX)
         in fold (purge_rec minwuid) [0..<length (srecs svars)] svars)
      else svars)"

text \<open>What is printed to the new state: the header, then a line for every record that
  is not \<^verbatim>\<open>S_DEAD\<close>.\<close>

definition header_line :: "sync_vars \<Rightarrow> string" where
  "header_line svars =
     show_int (sel (uidval svars) M) @ '':'' @ show_int (sel (maxuid svars) M) @ '' '' @
     show_int (sel (uidval svars) S) @ '':'' @ show_int (smaxxuid svars) @ '':'' @
     show_int (sel (maxuid svars) S) @ ''\<newline>''"

definition entry_line :: "sync_rec \<Rightarrow> string" where
  "entry_line srec =
     show_int (sel (uid srec) M) @ '' '' @ show_int (sel (uid srec) S) @ '' '' @
     (if tst (status srec) S_EXPIRED then ''X'' else []) @ make_flags (flags srec) @ ''\<newline>''"

definition write_state :: "sync_vars \<Rightarrow> sync_vars" where
  "write_state svars =
     svars\<lparr>nfp := nfp svars @ header_line svars #
                   map entry_line (filter (\<lambda>srec. \<not> tst (status srec) S_DEAD) (srecs svars))\<rparr>"

text \<open>\<^verbatim>\<open>rename( nname, dname ); unlink( jname )\<close>, unless the journal is to be kept.\<close>

definition commit_files :: "env \<Rightarrow> sync_vars \<Rightarrow> sync_vars" where
  "commit_files e svars =
     (if keep_journal e then svars
      else svars\<lparr>fs := (fs svars)\<lparr>dfile := nfile (fs svars), nfile := Absent, jfile := Absent\<rparr>\<rparr>)"

definition box_closed_p2 :: "env \<Rightarrow> side \<Rightarrow> sync_vars \<Rightarrow> sync_vars" where
  "box_closed_p2 e t svars =
     (let svars1 = or_state t ST_CLOSED svars
      in if \<not> tst (sel (state svars1) (other t)) ST_CLOSED then svars1
         else sync_bail (commit_files e (Fclose_jfp (Fclose_nfp (write_state (purge svars1))))))"

section \<open>Completion of copies and trashing (\<^verbatim>\<open>msg_copied\<close>, \<^verbatim>\<open>msg_trashed\<close>, \<^verbatim>\<open>msg_rtrashed\<close>)\<close>

definition sync_close :: "env \<Rightarrow> side \<Rightarrow> sync_vars \<Rightarrow> sync_vars" where
  "sync_close e t svars =
     (if NOT (sel (state svars) t) AND (ST_FOUND_NEW OR ST_SENT_TRASH) \<noteq> 0 \<or>
         sel (trash_done svars) t < sel (trash_total svars) t
      then svars
      else if tst (sel (ops (chan svars)) t) OP_EXPUNGE
      then svars\<lparr>calls := calls svars @ [Close_box t]\<rparr>
      else box_closed_p2 e t svars)"

text \<open>The callback of the driver's \<^verbatim>\<open>close\<close>.\<close>

definition box_closed :: "env \<Rightarrow> drv_sts \<Rightarrow> side \<Rightarrow> sync_vars \<Rightarrow> sync_vars" where
  "box_closed e sts t svars =
     (case check_ret sts svars of
        (svars1, True) \<Rightarrow> svars1
      | (svars1, False) \<Rightarrow> box_closed_p2 e t (or_state t ST_DID_EXPUNGE svars1))"

definition msgs_new_done :: "env \<Rightarrow> side \<Rightarrow> sync_vars \<Rightarrow> sync_vars" where
  "msgs_new_done e t svars = sync_close e t (or_state t ST_FOUND_NEW svars)"


text \<open>The callback of \<^verbatim>\<open>find_new_msgs\<close>.\<close>

definition msgs_found_new :: "env \<Rightarrow> drv_sts \<Rightarrow> side \<Rightarrow> sync_vars \<Rightarrow> sync_vars" where
  "msgs_found_new e sts t svars =
     (case check_ret sts svars of
        (svars1, True) \<Rightarrow> svars1
      | (svars1, False) \<Rightarrow> msgs_new_done e t (match_tuids t svars1))"









section \<open>Loading the state and starting the run (\<^verbatim>\<open>box_selected\<close>, \<^verbatim>\<open>load_box\<close>)\<close>

text \<open>\<^verbatim>\<open>mvBit(in,ib,ob)\<close>: \<^verbatim>\<open>(unsigned char)(((unsigned)in) * (ob) / (ib))\<close>.\<close>

definition mvBit :: "8 word \<Rightarrow> 8 word \<Rightarrow> 8 word \<Rightarrow> 8 word" where
  "mvBit inp ib ob = ucast (((ucast inp :: 32 word) * ucast ob) div ucast ib)"

fun max_uid :: "side \<Rightarrow> sync_rec list \<Rightarrow> int \<Rightarrow> int" where
  "max_uid t [] maxwuid = maxwuid"
| "max_uid t (srec # rest) maxwuid =
     (if \<not> tst (status srec) S_DEAD \<and> sel (uid srec) t > maxwuid then max_uid t rest (sel (uid srec) t)
      else max_uid t rest maxwuid)"

definition load_box :: "side \<Rightarrow> int \<Rightarrow> int list \<Rightarrow> sync_vars \<Rightarrow> sync_vars" where
  "load_box t minwuid0 mexcs svars =
     (let os = opts (sel (ctx svars) t);
          minwuid = (if tst os OPEN_NEW \<and> minwuid0 > sel (maxuid svars) t + 1
                     then sel (maxuid svars) t + 1 else minwuid0);
          maxwuid = (if tst os OPEN_NEW then INT_MAX
                     else if tst os OPEN_OLD then max_uid t (srecs svars) 0
                     else 0)
      in svars\<lparr>calls := calls svars @ [Load_box t minwuid maxwuid (sel (newuid svars) t) mexcs]\<rparr>)"

text \<open>The options computed from the channel's operations, for one side \<open>t\<close> of the loop.
  The pair is \<^verbatim>\<open>opts[M]\<close>, \<^verbatim>\<open>opts[S]\<close>.\<close>

definition or_sel :: "32 word arr2 \<Rightarrow> side \<Rightarrow> 32 word \<Rightarrow> 32 word arr2" where
  "or_sel p t b = upd p t (sel p t OR b)"

definition chan_opts_side :: "channel_conf \<Rightarrow> side \<Rightarrow> 32 word arr2 \<Rightarrow> 32 word arr2" where
  "chan_opts_side ch t o0 =
     (let o1 = (if tst (sel (ops ch) t) (OP_DELETE OR OP_FLAGS) then
                  (let a = or_sel (or_sel o0 t OPEN_SETFLAGS) (other t) OPEN_OLD
                   in if tst (sel (ops ch) t) OP_FLAGS then or_sel a (other t) OPEN_FLAGS else a)
                else o0);
          o2 = (if tst (sel (ops ch) t) (OP_NEW OR OP_RENEW) then
                  (let a = or_sel o1 t OPEN_APPEND;
                       b = (if tst (sel (ops ch) t) OP_RENEW then or_sel a (other t) OPEN_OLD else a);
                       c = (if tst (sel (ops ch) t) OP_NEW then or_sel b (other t) OPEN_NEW else b);
                       d = (if tst (sel (ops ch) t) OP_EXPUNGE then or_sel c (other t) OPEN_FLAGS else c)
                   in if int (max_size (sel (stores ch) t)) \<noteq> INT_MAX then or_sel d (other t) OPEN_SIZE else d)
                else o1)
      in if tst (sel (ops ch) t) OP_EXPUNGE then
           (let a = or_sel o2 t OPEN_EXPUNGE
            in if trash (sel (stores ch) t) \<noteq> None then
                 (let b = (if \<not> trash_only_new (sel (stores ch) t) then or_sel a t OPEN_OLD else a)
                  in or_sel b t (OPEN_NEW OR OPEN_FLAGS))
               else if trash (sel (stores ch) (other t)) \<noteq> None \<and> trash_remote_new (sel (stores ch) (other t))
               then or_sel a t (OPEN_NEW OR OPEN_FLAGS)
               else a)
         else o2)"

text \<open>The loop over the records after a journal was replayed (\<^verbatim>\<open>if (line)\<close>): the options
  and the \<^verbatim>\<open>S_FIND\<close> bits it adds.\<close>

fun recover_opts :: "sync_rec list \<Rightarrow> 32 word arr2 \<times> 32 word arr2 \<Rightarrow> 32 word arr2 \<times> 32 word arr2" where
  "recover_opts [] os = os"
| "recover_opts (srec # rest) (o0, st0) =
     (if tst (status srec) S_DEAD then recover_opts rest (o0, st0)
      else
        (let o1 = (if tst (mvBit (status srec) S_EXPIRE S_EXPIRED XOR status srec) S_EXPIRED
                   then or_sel o0 S (OPEN_OLD OR OPEN_FLAGS) else o0)
         in if tuid0 (tuid srec) \<noteq> CHR 0x00 then
              (if sel (uid srec) M = - 2
               then recover_opts rest (or_sel o1 M (OPEN_NEW OR OPEN_FIND), or_sel st0 M S_FIND)
               else if sel (uid srec) S = - 2
               then recover_opts rest (or_sel o1 S (OPEN_NEW OR OPEN_FIND), or_sel st0 S S_FIND)
               else recover_opts rest (o1, st0))
            else recover_opts rest (o1, st0)))"

text \<open>The exit \<^verbatim>\<open>bail\<close> of \<^verbatim>\<open>box_selected\<close>, after the messages \<open>es\<close> were printed.\<close>

definition bail :: "error list \<Rightarrow> sync_vars \<Rightarrow> sync_vars" where
  "bail es svars = sync_bail (svars\<lparr>ret := SYNC_FAIL, diags := diags svars @ map Err es\<rparr>)"

text \<open>The UIDVALIDITY check: the messages for the sides whose recorded value is set and
  differs from the store's.\<close>

definition uidval_errors :: "sync_vars \<Rightarrow> error list" where
  "uidval_errors svars =
     map Uidvalidity_changed
       (filter (\<lambda>t. sel (uidval svars) t \<ge> 0 \<and> sel (uidval svars) t \<noteq> uidvalidity (sel (ctx svars) t)) [M, S])"

text \<open>
  The part of \<^verbatim>\<open>box_selected\<close> after the check: the new state and the journal are opened
  for writing, the options are computed and the boxes are loaded. \<open>recovered\<close> is
  \<^verbatim>\<open>line != 0\<close>.
\<close>

definition start_run :: "env \<Rightarrow> bool \<Rightarrow> sync_vars \<Rightarrow> sync_vars" where
  "start_run e recovered svars =
     (if \<not> n_writable e then bail [Cannot_write_new] svars
      else
        (let svars1 = svars\<lparr>fs := (fs svars)\<lparr>nfile := Content []\<rparr>\<rparr>
         in if \<not> j_writable e then bail [Cannot_write_journal] svars1
            else
              (let svars2 = svars1\<lparr>fs := (fs svars1)\<lparr>jfile := (case jfile (fs svars1) of
                                                                     Absent \<Rightarrow> Content []
                                                                   | f \<Rightarrow> f)\<rparr>\<rparr>;
                   svars3 = (if \<not> recovered then Fprintf_j ''2\<newline>'' svars2 else svars2);
                   o1 = chan_opts_side (chan svars3) S (chan_opts_side (chan svars3) M (0, 0));
                   o2 = (if tst (sel (ops (chan svars3)) S) (OP_NEW OR OP_RENEW) \<and> max_messages (chan svars3) \<noteq> 0
                         then or_sel o1 S (OPEN_OLD OR OPEN_NEW OR OPEN_FLAGS OR OPEN_TIME) else o1);
                   (o3, st) = (if recovered then recover_opts (srecs svars3) (o2, state svars3)
                               else (o2, state svars3));
                   cM = (sel (ctx svars3) M)\<lparr>opts := prepare_opts e M (sel o3 M)\<rparr>;
                   cS = (sel (ctx svars3) S)\<lparr>opts := prepare_opts e S (sel o3 S)\<rparr>;
                   svars4 = svars3\<lparr>state := st, ctx := (cM, cS)\<rparr>;
                   svars5 = (if smaxxuid svars4 = 0
                             then load_box M (if tst (opts cM) OPEN_OLD then 1 else INT_MAX) [] svars4
                             else svars4)
               in load_box S (if tst (opts cS) OPEN_OLD then 1 else INT_MAX) [] svars5)))"

text \<open>The load procedure of \<^verbatim>\<open>box_selected\<close>: the sync state is read, then the journal. An
  error leaves through \<^verbatim>\<open>jbail\<close> or \<^verbatim>\<open>bail\<close>.\<close>

definition load_state :: "sync_rec \<Rightarrow> sync_vars \<Rightarrow> error + sync_vars \<times> bool" where
  "load_state junk svars =
     (case read_state junk svars of
        Inl err \<Rightarrow> Inl err
      | Inr svars1 \<Rightarrow> read_journal junk svars1)"

text \<open>
  \<^verbatim>\<open>box_selected\<close>, from the point where both boxes are selected and the file names are
  known: the lock, the sync state, the journal, the UIDVALIDITY check, the start.
\<close>

definition box_selected :: "env \<Rightarrow> sync_rec \<Rightarrow> sync_vars \<Rightarrow> sync_vars" where
  "box_selected e junk svars =
     (case lock e of
        Lock_open_failed \<Rightarrow>
          sync_bail2 (svars\<lparr>lfd := - 1, ret := SYNC_FAIL, diags := diags svars @ [Err Cannot_create_lock]\<rparr>)
      | Lock_held \<Rightarrow>
          sync_bail1 (svars\<lparr>lfd := lock_fd e, fs := (fs svars)\<lparr>lfile := True\<rparr>, ret := SYNC_FAIL,
                             diags := diags svars @ [Err Channel_locked]\<rparr>)
      | Lock_ok \<Rightarrow>
          (let svars0 = svars\<lparr>lfd := lock_fd e, fs := (fs svars)\<lparr>lfile := True\<rparr>\<rparr>
           in case load_state junk svars0 of
                Inl err \<Rightarrow> bail [err] svars0
              | Inr (svars2, recovered) \<Rightarrow>
                  if uidval_errors svars2 \<noteq> [] then bail (uidval_errors svars2) svars2
                  else start_run e recovered svars2))"


text \<open>What the purge loop leaves alone, after \<open>n\<close> records.\<close>

definition purge_inv :: "sync_vars \<Rightarrow> nat \<Rightarrow> sync_vars \<Rightarrow> bool" where
  "purge_inv sv n sv' =
     (ret sv' = ret sv \<and> calls sv' = calls sv \<and> state sv' = state sv \<and> maxuid sv' = maxuid sv
      \<and> smaxxuid sv' = smaxxuid sv
      \<and> length (srecs sv') = length (srecs sv)
      \<and> (\<forall>i\<ge>n. srecs sv' ! i = srecs sv ! i)
      \<and> (\<forall>i. tst (status (srecs sv ! i)) S_DEAD \<longrightarrow> srecs sv' ! i = srecs sv ! i)
      \<and> (\<exists>a. jfp sv' = jfp sv @ a))"


text \<open>How the purge of \<^verbatim>\<open>box_closed_p2\<close> may change a record: it is killed, or each UID stays or becomes 0 and
  one of them is positive.\<close>

definition purged :: "sync_rec \<Rightarrow> sync_rec \<Rightarrow> bool" where
  "purged srec srec' =
     (tst (status srec') S_DEAD \<or>
      ((sel (uid srec') M = sel (uid srec) M \<or> sel (uid srec') M = 0) \<and>
       (sel (uid srec') S = sel (uid srec) S \<or> sel (uid srec') S = 0) \<and>
       (0 < sel (uid srec') M \<or> 0 < sel (uid srec') S) \<and>
       status srec' = status srec \<and> flags srec' = flags srec))"

text \<open>The first \<open>n\<close> records after \<open>n\<close> rounds of the purge loop.\<close>

definition purged_inv :: "sync_vars \<Rightarrow> nat \<Rightarrow> sync_vars \<Rightarrow> bool" where
  "purged_inv sv n sv' = (\<forall>i<n. purged (srecs sv ! i) (srecs sv' ! i))"

text \<open>The context without what the load procedure sets: the records and the numbers of
  the header and of the journal.\<close>

definition unloaded :: "sync_vars \<Rightarrow> sync_vars" where
  "unloaded sv = sv\<lparr>uidval := (0, 0), maxuid := (0, 0), newuid := (0, 0), smaxxuid := 0, srecs := []\<rparr>"

text \<open>A scan that takes the characters with \<open>P\<close> stops at \<open>rest\<close>: it is empty or starts
  with a character without \<open>P\<close>.\<close>

definition stops :: "(char \<Rightarrow> bool) \<Rightarrow> string \<Rightarrow> bool" where
  "stops P rest = (case rest of [] \<Rightarrow> True | c # _ \<Rightarrow> \<not> P c)"

text \<open>A character that is neither white space nor NUL.\<close>

definition plain :: "char \<Rightarrow> bool" where
  "plain c = (\<not> isspace c \<and> c \<noteq> CHR 0x00)"

text \<open>The values of a C \<^verbatim>\<open>int\<close>.\<close>

definition is_int :: "int \<Rightarrow> bool" where
  "is_int i = (- (2 ^ 31) \<le> i \<and> i < 2 ^ 31)"

text \<open>A record as it comes back from its line of the sync state.\<close>

definition reread :: "sync_rec \<Rightarrow> sync_rec \<Rightarrow> sync_rec" where
  "reread junk srec =
     junk\<lparr>uid := (sel (uid srec) M, sel (uid srec) S), msg := (None, None),
          status := (if tst (status srec) S_EXPIRED then S_EXPIRE OR S_EXPIRED else 0),
          flags := flags srec, tuid := clear_tuid (tuid junk)\<rparr>"

text \<open>A line that \<^verbatim>\<open>fgets\<close> returns whole and the checks accept: it ends with its only
  newline, holds no NUL and fits the buffer.\<close>

definition good_line :: "string \<Rightarrow> bool" where
  "good_line l = (l \<noteq> [] \<and> last l = CHR ''\<newline>'' \<and> CHR ''\<newline>'' \<notin> set (butlast l)
                  \<and> CHR 0x00 \<notin> set l \<and> length l \<le> 127)"

text \<open>
  The journal entries that overwrite a part of the context or of a record without
  creating a record, changing a UID or reading the \<^verbatim>\<open>S_EXPIRE\<close> bit: the opcodes
  \<^verbatim>\<open>( ) { } | - * # & ~\<close> and the backslash.
\<close>

fun safe_jline :: "jline \<Rightarrow> bool" where
  "safe_jline (J1 c t1) = True"
| "safe_jline (JT t1 t2 tu) = True"
| "safe_jline (J2 c t1 t2) = (c = CHR ''|'' \<or> c = CHR ''-'' \<or> c = CHR ''&'' \<or> c = CHR 0x5C)"
| "safe_jline (J3 c t1 t2 t3) = (c = CHR ''*'' \<or> c = CHR ''~'')"

definition safe_line :: "string \<Rightarrow> bool" where
  "safe_line buf = (case parse_jline (cstr buf) of None \<Rightarrow> True | Some jl \<Rightarrow> safe_jline jl)"

text \<open>The three ways a safe entry changes the status of a record, apart from killing it.\<close>

definition setE :: "8 word \<Rightarrow> 8 word" where
  "setE st = st OR S_EXPIRE"

definition clrE :: "8 word \<Rightarrow> 8 word" where
  "clrE st = st AND NOT S_EXPIRE"

definition copyXE :: "8 word \<Rightarrow> 8 word" where
  "copyXE st = (if tst st S_EXPIRED then st OR S_EXPIRE else st AND NOT S_EXPIRE)"

text \<open>
  Two replays of the same entries, one from \<open>x0\<close> and one from \<open>y0\<close>, have reached \<open>x\<close> and
  \<open>y\<close>. A part that an entry assigned holds the same value in both; a part that no entry
  touched holds what it held at the start.
\<close>

definition cell_rel :: "'a \<Rightarrow> 'a \<Rightarrow> 'a \<Rightarrow> 'a \<Rightarrow> bool" where
  "cell_rel x0 y0 x y = (x = y \<or> (x = x0 \<and> y = y0))"

definition tuid_rel :: "char list \<Rightarrow> char list \<Rightarrow> char list \<Rightarrow> char list \<Rightarrow> bool" where
  "tuid_rel x0 y0 x y = (x = y \<or> (x = x0 \<and> y = y0) \<or> (x = clear_tuid x0 \<and> y = clear_tuid y0))"

definition st_rel :: "8 word \<Rightarrow> 8 word \<Rightarrow> 8 word \<Rightarrow> 8 word \<Rightarrow> bool" where
  "st_rel x0 y0 x y =
     (x = y \<or> (x = x0 \<and> y = y0) \<or> (x = setE x0 \<and> y = setE y0) \<or> (x = clrE x0 \<and> y = clrE y0)
      \<or> (x = copyXE x0 \<and> y = copyXE y0))"

definition untouched :: "sync_rec \<Rightarrow> sync_rec" where
  "untouched srec = srec\<lparr>flags := 0, tuid := [], status := 0\<rparr>"

definition rec_rel :: "sync_rec \<Rightarrow> sync_rec \<Rightarrow> sync_rec \<Rightarrow> sync_rec \<Rightarrow> bool" where
  "rec_rel x0 y0 x y =
     (untouched x = untouched x0 \<and> untouched y = untouched y0
      \<and> cell_rel (flags x0) (flags y0) (flags x) (flags y)
      \<and> tuid_rel (tuid x0) (tuid y0) (tuid x) (tuid y)
      \<and> st_rel (status x0) (status y0) (status x) (status y))"

definition replay_rel :: "sync_vars \<Rightarrow> sync_vars \<Rightarrow> sync_vars \<Rightarrow> sync_vars \<Rightarrow> bool" where
  "replay_rel x0 y0 x y =
     (unloaded x = unloaded x0 \<and> unloaded y = unloaded y0
      \<and> smaxxuid x = smaxxuid x0 \<and> smaxxuid y = smaxxuid y0
      \<and> cell_rel (fst (maxuid x0)) (fst (maxuid y0)) (fst (maxuid x)) (fst (maxuid y))
      \<and> cell_rel (snd (maxuid x0)) (snd (maxuid y0)) (snd (maxuid x)) (snd (maxuid y))
      \<and> cell_rel (fst (newuid x0)) (fst (newuid y0)) (fst (newuid x)) (fst (newuid y))
      \<and> cell_rel (snd (newuid x0)) (snd (newuid y0)) (snd (newuid x)) (snd (newuid y))
      \<and> cell_rel (uidval x0) (uidval y0) (uidval x) (uidval y)
      \<and> length (srecs x) = length (srecs x0) \<and> length (srecs y) = length (srecs x0)
      \<and> (\<forall>i<length (srecs x0). rec_rel (srecs x0 ! i) (srecs y0 ! i) (srecs x ! i) (srecs y ! i)))"

text \<open>What a safe entry does to the record it names: each of the flags, the TUID and the
  status is kept, assigned, or (TUID) cleared, or (status) has its \<^verbatim>\<open>S_EXPIRE\<close> bit set,
  cleared or copied from \<^verbatim>\<open>S_EXPIRED\<close>.\<close>

definition flags_op :: "(8 word \<Rightarrow> 8 word) \<Rightarrow> bool" where
  "flags_op g = (g = id \<or> (\<exists>v. g = (\<lambda>_. v)))"

definition tuid_op :: "(char list \<Rightarrow> char list) \<Rightarrow> bool" where
  "tuid_op g = (g = id \<or> g = clear_tuid \<or> (\<exists>v. g = (\<lambda>_. v)))"

definition status_op :: "(8 word \<Rightarrow> 8 word) \<Rightarrow> bool" where
  "status_op g = (g = id \<or> g = setE \<or> g = clrE \<or> g = copyXE \<or> (\<exists>v. g = (\<lambda>_. v)))"

definition rec_op :: "(8 word \<Rightarrow> 8 word) \<Rightarrow> (char list \<Rightarrow> char list) \<Rightarrow> (8 word \<Rightarrow> 8 word)
    \<Rightarrow> sync_rec \<Rightarrow> sync_rec" where
  "rec_op gf gt gs srec = srec\<lparr>flags := gf (flags srec), tuid := gt (tuid srec), status := gs (status srec)\<rparr>"

text \<open>The entries that name a record: all but the one-number entries, \<^verbatim>\<open>|\<close> and \<^verbatim>\<open>+\<close>.\<close>

fun rec_entry :: "jline \<Rightarrow> bool" where
  "rec_entry (J1 c t1) = False"
| "rec_entry (J2 c t1 t2) = (c \<noteq> CHR ''|'' \<and> c \<noteq> CHR ''+'')"
| "rec_entry (J3 c t1 t2 t3) = True"
| "rec_entry (JT t1 t2 tu) = True"

section \<open>Example inputs\<close>

definition ex_store_conf :: store_conf where
  "ex_store_conf = \<lparr>trash = None, max_size = 1000, trash_remote_new = False, trash_only_new = False\<rparr>"

definition ex_store :: "message list \<Rightarrow> store" where
  "ex_store ms = \<lparr>conf = ex_store_conf, msgs = ms, uidvalidity = 1, uidnext = 100, opts = 0,
     count = int (length ms), recent = 0\<rparr>"

definition ex_chan :: "32 word arr2 \<Rightarrow> channel_conf" where
  "ex_chan os = \<lparr>stores = (ex_store_conf, ex_store_conf), ops = os, max_messages = 0\<rparr>"

definition no_files :: files where
  "no_files = \<lparr>dfile = Absent, jfile = Absent, nfile = Absent, lfile = False\<rparr>"

definition sync_boxes_init :: "channel_conf \<Rightarrow> store arr2 \<Rightarrow> sync_vars" where
  "sync_boxes_init ch cx =
     \<lparr>jfp = [], nfp = [], srecs = [], chan = ch, ctx = cx, state = (0, 0), ret = 0,
      new_total = (0, 0), new_done = (0, 0), flags_total = (0, 0), flags_done = (0, 0),
      trash_total = (0, 0), trash_done = (0, 0), maxuid = (0, 0), uidval = (- 1, - 1),
      newuid = (0, 0), smaxxuid = 0, lfd = 0, fs = no_files, calls = [], diags = []\<rparr>"

definition ex_msg :: "int \<Rightarrow> 8 word \<Rightarrow> nat \<Rightarrow> string \<Rightarrow> message" where
  "ex_msg u fl sz tu = \<lparr>msg_srec = None, msg_size = sz, msg_uid = u, msg_flags = fl, msg_status = M_FLAGS,
     msg_tuid = tu\<rparr>"

definition ex_rec :: "int \<Rightarrow> int \<Rightarrow> 8 word \<Rightarrow> 8 word \<Rightarrow> string \<Rightarrow> sync_rec" where
  "ex_rec um us st fl tu = \<lparr>uid = (um, us), msg = (None, None), status = st, flags = fl,
     aflags = (0, 0), dflags = (0, 0), tuid = tu\<rparr>"

definition ex_lost :: sync_vars where
  "ex_lost = (sync_boxes_init (ex_chan (OP_NEW, OP_NEW))
                (ex_store [ex_msg 5 F_SEEN 10 []], ex_store [ex_msg 9 0 10 ''XXXXXXXXXXXX'']))
             \<lparr>srecs := [ex_rec 5 (- 2) 0 F_SEEN ''ABCDEFGHIJKL'']\<rparr>"

definition ex_expired :: sync_vars where
  "ex_expired = (sync_boxes_init (ex_chan (OP_FLAGS, OP_FLAGS))
                   (ex_store [ex_msg 1 0 10 []], ex_store [ex_msg 1 F_DELETED 10 []]))
                \<lparr>srecs := [(ex_rec 1 1 (S_EXPIRE OR S_EXPIRED) 0 [])\<lparr>msg := (Some 0, Some 0)\<rparr>]\<rparr>"

definition ex_new :: sync_vars where
  "ex_new = sync_boxes_init (ex_chan (OP_NEW, OP_NEW)) (ex_store [ex_msg 7 0 5000 []], ex_store [])"

definition ex_env :: env where
  "ex_env = \<lparr>lock = Lock_ok, n_writable = True, j_writable = True, prepare_opts = (\<lambda>t os. os),
     lock_fd = 3, keep_journal = False\<rparr>"


definition ex_skipped :: sync_vars where
  "ex_skipped = (sync_boxes_init (ex_chan (OP_NEW, OP_NEW))
                   (ex_store [ex_msg 5 0 5000 []], ex_store []))
                \<lparr>srecs := [ex_rec 5 (- 1) S_DONE 0 []], uidval := (1, 1), maxuid := (5, 0),
                  state := (ST_CLOSED, 0), lfd := 3\<rparr>"

definition ex_crashed :: sync_vars where
  "ex_crashed = (sync_boxes_init (ex_chan (OP_NEW, OP_NEW)) (ex_store [], ex_store []))
                \<lparr>fs := \<lparr>dfile = Content ''1:5 1:0:3\<newline>5 3 S\<newline>'', jfile = Content ''2\<newline>- 5 3\<newline>'',
                         nfile = Absent, lfile = True\<rparr>\<rparr>"

definition ex_changed :: sync_vars where
  "ex_changed = (sync_boxes_init (ex_chan (OP_NEW, OP_NEW)) (ex_store [], ex_store []))
                \<lparr>fs := \<lparr>dfile = Content ''7:5 1:0:3\<newline>5 3 S\<newline>'', jfile = Absent,
                         nfile = Absent, lfile = False\<rparr>\<rparr>"


definition ex_commit :: sync_vars where
  "ex_commit = (sync_boxes_init (ex_chan (OP_NEW, OP_NEW)) (ex_store [], ex_store []))
               \<lparr>srecs := [ex_rec 5 3 (S_EXPIRE OR S_EXPIRED) (F_SEEN OR F_DELETED) [],
                          ex_rec 6 0 S_DEAD 0 [],
                          ex_rec 7 (- 1) S_DONE 0 [],
                          ex_rec 8 4 0 (F_DRAFT OR F_FLAGGED OR F_ANSWERED) ''ABCDEFGHIJKL''],
                 uidval := (1, 1), maxuid := (8, 4), smaxxuid := 3\<rparr>"

definition ex_safe_journal :: string where
  "ex_safe_journal =
     ''2\<newline>* 5 3 2\<newline>~ 5 3 1\<newline>'' @ [CHR 0x5C] @ '' 6 -2\<newline>& 6 -2\<newline>( 7\<newline>| 1 2\<newline>''"

definition ex_journal :: sync_vars where
  "ex_journal = (sync_boxes_init (ex_chan (OP_NEW, OP_NEW)) (ex_store [], ex_store []))
                \<lparr>srecs := [ex_rec 5 3 0 F_SEEN [], ex_rec 6 (- 2) S_EXPIRED 0 ''ABCDEFGHIJKL''],
                  uidval := (1, 1), maxuid := (5, 3)\<rparr>"

section \<open>Properties\<close>

lemma sel_upd_same: "sel (upd p t v) t = v"
  by (cases p; cases t) simp_all

lemma sel_upd_other: "sel (upd p t v) (other t) = sel p (other t)"
  by (cases p; cases t) simp_all

lemma sel_upd: "sel (upd p t v) u = (if u = t then v else sel p u)"
  by (cases p; cases t; cases u) simp_all

lemma and_not_deleted: "((x AND NOT F_DELETED) AND NOT y) AND F_DELETED = (0::8 word)"
  by (auto simp add: bit_eq_iff bit_simps)

lemma tst_or_disjoint: "d AND b = 0 \<Longrightarrow> tst (st OR d) b = tst st b"
  by (simp add: tst_def bit.conj_disj_distrib2)

lemma S_DEL_disjoint_expire: "S_DEL t AND (S_EXPIRE OR S_EXPIRED) = 0"
  by (cases t) (simp_all add: S_EXPIRE_def S_EXPIRED_def)

lemma tst_or_S_DEL: "tst (st OR S_DEL t) (S_EXPIRE OR S_EXPIRED) = tst st (S_EXPIRE OR S_EXPIRED)"
  by (simp add: tst_or_disjoint S_DEL_disjoint_expire)

lemma not_tst_and_not_deleted: "\<not> tst ((x AND NOT F_DELETED) AND NOT y) F_DELETED"
  by (simp add: tst_def and_not_deleted)

lemma not_tst_0: "\<not> tst 0 b"
  by (simp add: tst_def)

lemma sync_old_side_length: "length (srecs (sync_old_side del i t svars)) = length (srecs svars)"
  by (simp add: sync_old_side_def Let_def split: option.splits)

lemma sync_old_side_M_aflags:
  assumes "i < length (srecs svars)" and "tst (status (srecs svars ! i)) (S_EXPIRE OR S_EXPIRED)"
  shows "\<not> tst (sel (aflags (srecs (sync_old_side del i M svars) ! i)) M) F_DELETED"
  using assms tst_or_S_DEL[of "status (srecs svars ! i)" M]
  by (simp add: sync_old_side_def Let_def sel_upd not_tst_and_not_deleted not_tst_0
      split: option.splits)

lemma sync_old_side_S_aflags:
  assumes "i < length (srecs svars)"
  shows "sel (aflags (srecs (sync_old_side del i S svars) ! i)) M = sel (aflags (srecs svars ! i)) M"
  using assms
  by (simp add: sync_old_side_def Let_def sel_upd split: option.splits)

text \<open>
  Claim C4. For a sync record whose status has \<^verbatim>\<open>S_EXPIRE\<close> or \<^verbatim>\<open>S_EXPIRED\<close> set, the
  flag-change computation of Phase B for the master side never puts \<^verbatim>\<open>F_DELETED\<close> into
  \<^verbatim>\<open>aflags[M]\<close>: neither the step for \<open>t = M\<close> nor the following step for \<open>t = S\<close> leaves
  the bit set, whatever the slave message's flags are.
\<close>

theorem expiring_record_never_adds_deleted_to_master:
  assumes "i < length (srecs svars)" and "tst (status (srecs svars ! i)) (S_EXPIRE OR S_EXPIRED)"
  shows "\<not> tst (sel (aflags (srecs (sync_old_side del i M svars) ! i)) M) F_DELETED
       \<and> \<not> tst (sel (aflags (srecs (sync_old_side del i S (sync_old_side del i M svars)) ! i)) M) F_DELETED"
  using assms sync_old_side_M_aflags[OF assms, of del]
     sync_old_side_S_aflags[of i "sync_old_side del i M svars" del]
  by (simp add: sync_old_side_length)

theorem expiring_record_never_adds_deleted_to_master_witness:
  "0 < length (srecs ex_expired) \<and> tst (status (srecs ex_expired ! 0)) (S_EXPIRE OR S_EXPIRED)
   \<and> tst (msg_flags (msgs (sel (ctx ex_expired) S) ! 0)) F_DELETED
   \<and> \<not> tst (sel (aflags (srecs (sync_old_side (False, False) 0 S
                                   (sync_old_side (False, False) 0 M ex_expired)) ! 0)) M) F_DELETED"
proof -
  have h1: "0 < length (srecs ex_expired)"
    by (simp add: ex_expired_def)
  have h2: "tst (status (srecs ex_expired ! 0)) (S_EXPIRE OR S_EXPIRED)"
    by (simp add: ex_expired_def ex_rec_def tst_def S_EXPIRE_def S_EXPIRED_def)
  have h3: "tst (msg_flags (msgs (sel (ctx ex_expired) S) ! 0)) F_DELETED"
    by (simp add: ex_expired_def sync_boxes_init_def ex_store_def ex_msg_def tst_def F_DELETED_def)
  from expiring_record_never_adds_deleted_to_master[OF h1 h2, of "(False, False)"] h1 h2 h3
  show ?thesis by simp
qed

lemma tuid0_take: "take TUIDL a = take TUIDL b \<Longrightarrow> tuid0 a = tuid0 b"
  by (cases a; cases b) (simp_all add: TUIDL_def)

lemma find_tuid_None_iff:
  "find_tuid tu ms k = None \<longleftrightarrow> list_all (\<lambda>tmsg. tst (msg_status tmsg) M_DEAD \<or> \<not> tuid_match tmsg tu) ms"
  by (induction ms arbitrary: k) simp_all

lemma find_tuid_unlink: "find_tuid tu (map unlink_msg ms) k = find_tuid tu ms k"
  by (induction ms arbitrary: k) (simp_all add: unlink_msg_def tuid_match_def)

lemma find_tuid_bound: "find_tuid tu ms k = Some j \<Longrightarrow> k \<le> j \<and> j < k + length ms"
proof (induction ms arbitrary: k)
  case Nil
  then show ?case by simp
next
  case (Cons a ms)
  then show ?case by (fastforce split: if_splits)
qed

lemma scan_tuid_None_iff:
  "scan_tuid tu ms nt = None \<longleftrightarrow> list_all (\<lambda>tmsg. tst (msg_status tmsg) M_DEAD \<or> \<not> tuid_match tmsg tu) ms"
proof -
  have "list_all (\<lambda>tmsg. tst (msg_status tmsg) M_DEAD \<or> \<not> tuid_match tmsg tu) (take nt ms @ drop nt ms)
      = (find_tuid tu (take nt ms) 0 = None \<and> find_tuid tu (drop nt ms) nt = None)"
    unfolding list_all_append find_tuid_None_iff by simp
  then show ?thesis
    by (auto simp add: scan_tuid_def split: option.splits)
qed

lemma tuid_lost_scan:
  "tuid0 (tuid srec) \<noteq> CHR 0x00 \<Longrightarrow>
   list_all (\<lambda>tmsg. tst (msg_status tmsg) M_DEAD \<or> take TUIDL (msg_tuid tmsg) \<noteq> take TUIDL (tuid srec)) ms
   = (scan_tuid (tuid srec) ms nt = None)"
  unfolding scan_tuid_None_iff
  by (rule arg_cong[where f="\<lambda>P. list_all P ms"]) (auto simp add: tuid_match_def fun_eq_iff dest: tuid0_take)

lemma scan_tuid_bound: "scan_tuid tu ms nt = Some k \<Longrightarrow> k < length ms"
  by (auto simp add: scan_tuid_def split: option.splits dest!: find_tuid_bound)

lemma scan_tuid_unlink: "scan_tuid tu (map unlink_msg ms) nt = scan_tuid tu ms nt"
  by (simp add: scan_tuid_def find_tuid_unlink drop_map take_map split: option.splits)

lemma tuid_lost_unlink: "tuid_lost t (map unlink_msg ms) srec = tuid_lost t ms srec"
  by (simp add: tuid_lost_def list_all_iff unlink_msg_def)

text \<open>One step on a lost record.\<close>

lemma match_tuids_rec_lost:
  assumes "tuid_lost t (msgs (sel (ctx svars) t)) (srecs svars ! i)"
  shows "match_tuids_rec t i (svars, nt, nl) =
           (set_srec i (lost_rec (srecs svars ! i)) (Fprintf_j (lost_line (srecs svars ! i)) svars), nt, Suc nl)"
proof -
  have "scan_tuid (tuid (srecs svars ! i)) (msgs (sel (ctx svars) t)) nt = None"
    using assms tuid_lost_scan[of "srecs svars ! i" "msgs (sel (ctx svars) t)" nt]
    by (simp add: tuid_lost_def)
  then show ?thesis
    using assms by (simp add: match_tuids_rec_def Let_def tuid_lost_def lost_rec_def lost_line_def)
qed

text \<open>One step on any other record: nothing is counted.\<close>

lemma match_tuids_rec_kept:
  assumes "\<not> tuid_lost t (msgs (sel (ctx svars) t)) (srecs svars ! i)"
  shows "snd (snd (match_tuids_rec t i (svars, nt, nl))) = nl"
proof (cases "\<not> tst (status (srecs svars ! i)) S_DEAD \<and> sel (uid (srecs svars ! i)) t = - 2
              \<and> tuid0 (tuid (srecs svars ! i)) \<noteq> CHR 0x00")
  case True
  then have "scan_tuid (tuid (srecs svars ! i)) (msgs (sel (ctx svars) t)) nt \<noteq> None"
    using assms tuid_lost_scan[of "srecs svars ! i" "msgs (sel (ctx svars) t)" nt]
    by (simp add: tuid_lost_def)
  then show ?thesis
    using True by (auto simp add: match_tuids_rec_def Let_def)
next
  case False
  then show ?thesis
    by (auto simp add: match_tuids_rec_def Let_def)
qed

text \<open>What every step leaves alone.\<close>

lemma sel_ctx_set_msg_srec:
  "msgs (sel (ctx (set_msg_srec t k p svars)) t) = (msgs (sel (ctx svars) t))[k := (msgs (sel (ctx svars) t) ! k)\<lparr>msg_srec := p\<rparr>]"
  by (simp add: set_msg_srec_def Let_def sel_upd)

lemma set_msg_srec_fields:
  "srecs (set_msg_srec t k p svars) = srecs svars"
  "jfp (set_msg_srec t k p svars) = jfp svars"
  "diags (set_msg_srec t k p svars) = diags svars"
  "maxuid (set_msg_srec t k p svars) = maxuid svars"
  "chan (set_msg_srec t k p svars) = chan svars"
  "calls (set_msg_srec t k p svars) = calls svars"
  "new_total (set_msg_srec t k p svars) = new_total svars"
  by (simp_all add: set_msg_srec_def Let_def)

lemma map_unlink_update:
  "k < length ms \<Longrightarrow> map unlink_msg (ms[k := (ms ! k)\<lparr>msg_srec := p\<rparr>]) = map unlink_msg ms"
  by (simp add: list_eq_iff_nth_eq nth_list_update unlink_msg_def)

lemma match_tuids_rec_frame:
  assumes "match_tuids_rec t i (svars, nt, nl) = (svars', nt', nl')"
  shows "length (srecs svars') = length (srecs svars)
       \<and> (\<forall>j. j \<noteq> i \<longrightarrow> srecs svars' ! j = srecs svars ! j)
       \<and> map unlink_msg (msgs (sel (ctx svars') t)) = map unlink_msg (msgs (sel (ctx svars) t))
       \<and> diags svars' = diags svars
       \<and> (\<exists>a. jfp svars' = jfp svars @ a)"
  using assms
  by (auto simp add: match_tuids_rec_def Let_def set_srec_def Fprintf_j_def sel_ctx_set_msg_srec
      set_msg_srec_fields map_unlink_update split: if_splits option.splits dest: scan_tuid_bound)

lemma mt_inv_step:
  assumes inv: "mt_inv t svars n st" and n: "n < length (srecs svars)"
  shows "mt_inv t svars (Suc n) (match_tuids_rec t n st)"
proof -
  obtain sv1 nt1 nl1 where st: "st = (sv1, nt1, nl1)" by (cases st) auto
  obtain sv2 nt2 nl2 where res: "match_tuids_rec t n (sv1, nt1, nl1) = (sv2, nt2, nl2)"
    by (cases "match_tuids_rec t n (sv1, nt1, nl1)") auto
  let ?ms = "msgs (sel (ctx svars) t)"
  let ?r = "srecs svars ! n"
  from inv st have
    nl1: "nl1 = length (filter (tuid_lost t ?ms) (take n (srecs svars)))" and
    len1: "length (srecs sv1) = length (srecs svars)" and
    keep1: "\<And>j. n \<le> j \<Longrightarrow> srecs sv1 ! j = srecs svars ! j" and
    ms1: "map unlink_msg (msgs (sel (ctx sv1) t)) = map unlink_msg ?ms" and
    dg1: "diags sv1 = diags svars" and
    jf1: "\<exists>a. jfp sv1 = jfp svars @ a" and
    done1: "\<And>j. j < n \<Longrightarrow> tuid_lost t ?ms (srecs svars ! j) \<Longrightarrow>
            srecs sv1 ! j = lost_rec (srecs svars ! j)
            \<and> (\<exists>a b. jfp sv1 = jfp svars @ a @ [lost_line (srecs svars ! j)] @ b)"
    by (auto simp add: mt_inv_def)
  have rn: "srecs sv1 ! n = ?r" using keep1 by simp
  have lost_eq: "tuid_lost t (msgs (sel (ctx sv1) t)) ?r = tuid_lost t ?ms ?r"
    using ms1 tuid_lost_unlink[of t "msgs (sel (ctx sv1) t)" ?r] tuid_lost_unlink[of t ?ms ?r]
    by simp
  from match_tuids_rec_frame[OF res] have
    len2: "length (srecs sv2) = length (srecs sv1)" and
    keep2: "\<And>j. j \<noteq> n \<Longrightarrow> srecs sv2 ! j = srecs sv1 ! j" and
    ms2: "map unlink_msg (msgs (sel (ctx sv2) t)) = map unlink_msg (msgs (sel (ctx sv1) t))" and
    dg2: "diags sv2 = diags sv1" and
    jf2: "\<exists>a. jfp sv2 = jfp sv1 @ a"
    by auto
  have tk: "take (Suc n) (srecs svars) = take n (srecs svars) @ [?r]"
    using n by (simp add: take_Suc_conv_app_nth)
  have old: "srecs sv2 ! j = lost_rec (srecs svars ! j)
            \<and> (\<exists>a b. jfp sv2 = jfp svars @ a @ [lost_line (srecs svars ! j)] @ b)"
    if "j < n" "tuid_lost t ?ms (srecs svars ! j)" for j
  proof -
    from done1[OF that] obtain a b where
      r: "srecs sv1 ! j = lost_rec (srecs svars ! j)" and
      j: "jfp sv1 = jfp svars @ a @ [lost_line (srecs svars ! j)] @ b" by auto
    from jf2 obtain c where "jfp sv2 = jfp sv1 @ c" by auto
    with j have "jfp sv2 = jfp svars @ a @ [lost_line (srecs svars ! j)] @ (b @ c)" by simp
    then show ?thesis using r keep2[of j] that(1) by auto
  qed
  show ?thesis
  proof (cases "tuid_lost t ?ms ?r")
    case True
    with lost_eq rn have "tuid_lost t (msgs (sel (ctx sv1) t)) (srecs sv1 ! n)" by simp
    from match_tuids_rec_lost[OF this, of nt1 nl1] res rn
    have sv2: "sv2 = set_srec n (lost_rec ?r) (Fprintf_j (lost_line ?r) sv1)" and nl2: "nl2 = Suc nl1"
      by auto
    from jf1 obtain a where a: "jfp sv1 = jfp svars @ a" by auto
    have new: "srecs sv2 ! n = lost_rec ?r \<and> (\<exists>a b. jfp sv2 = jfp svars @ a @ [lost_line ?r] @ b)"
    proof
      show "srecs sv2 ! n = lost_rec ?r"
        using sv2 n len1 by (simp add: set_srec_def Fprintf_j_def)
      have "jfp sv2 = jfp svars @ a @ [lost_line ?r] @ []"
        using sv2 a by (simp add: set_srec_def Fprintf_j_def)
      then show "\<exists>a b. jfp sv2 = jfp svars @ a @ [lost_line ?r] @ b" by blast
    qed
    have all: "srecs sv2 ! j = lost_rec (srecs svars ! j)
            \<and> (\<exists>a b. jfp sv2 = jfp svars @ a @ [lost_line (srecs svars ! j)] @ b)"
      if "j < Suc n" "tuid_lost t ?ms (srecs svars ! j)" for j
      using that old new by (cases "j = n") auto
    have jf: "\<exists>a. jfp sv2 = jfp svars @ a" using jf1 jf2 by auto
    show ?thesis
      unfolding st res mt_inv_def
      using True nl1 nl2 len1 len2 keep1 keep2 ms1 ms2 dg1 dg2 jf all tk by auto
  next
    case False
    with lost_eq rn have "\<not> tuid_lost t (msgs (sel (ctx sv1) t)) (srecs sv1 ! n)" by simp
    from match_tuids_rec_kept[OF this, of nt1 nl1] res have nl2: "nl2 = nl1" by simp
    have all: "srecs sv2 ! j = lost_rec (srecs svars ! j)
            \<and> (\<exists>a b. jfp sv2 = jfp svars @ a @ [lost_line (srecs svars ! j)] @ b)"
      if "j < Suc n" "tuid_lost t ?ms (srecs svars ! j)" for j
      using that old False by (cases "j = n") auto
    have jf: "\<exists>a. jfp sv2 = jfp svars @ a" using jf1 jf2 by auto
    show ?thesis
      unfolding st res mt_inv_def
      using False nl1 nl2 len1 len2 keep1 keep2 ms1 ms2 dg1 dg2 jf all tk by auto
  qed
qed

lemma mt_inv_fold:
  "n \<le> length (srecs svars) \<Longrightarrow> mt_inv t svars n (fold (match_tuids_rec t) [0..<n] (svars, nt0, 0))"
proof (induction n)
  case 0
  show ?case by (simp add: mt_inv_def)
next
  case (Suc n)
  then show ?case using mt_inv_step[of t svars n] by simp
qed

text \<open>
  Claim C7. In \<^verbatim>\<open>match_tuids\<close> on side \<open>t\<close>, a live record with \<^verbatim>\<open>uid[t] == -2\<close> and a
  TUID that no live message of the side carries gets its flags set to 0 and its TUID
  cleared, keeps its UIDs and its status (so it stays live), has the line \<^verbatim>\<open>& m s\<close>
  appended to the journal, and is counted in the one warning printed at the end, whose
  number is the number of such records.
\<close>

theorem match_tuids_lost_record:
  assumes "i < length (srecs svars)"
    and "tuid_lost t (msgs (sel (ctx svars) t)) (srecs svars ! i)"
  shows "flags (srecs (match_tuids t svars) ! i) = 0
       \<and> tuid (srecs (match_tuids t svars) ! i) = clear_tuid (tuid (srecs svars ! i))
       \<and> tuid0 (tuid (srecs (match_tuids t svars) ! i)) = CHR 0x00
       \<and> uid (srecs (match_tuids t svars) ! i) = uid (srecs svars ! i)
       \<and> status (srecs (match_tuids t svars) ! i) = status (srecs svars ! i)
       \<and> \<not> tst (status (srecs (match_tuids t svars) ! i)) S_DEAD
       \<and> (\<exists>a b. jfp (match_tuids t svars) =
                  jfp svars @ a @ [''& '' @ show_int (sel (uid (srecs svars ! i)) M) @ '' ''
                                    @ show_int (sel (uid (srecs svars ! i)) S) @ ''\<newline>''] @ b)
       \<and> diags (match_tuids t svars) =
           diags svars @ [Warn_lost (length (filter (tuid_lost t (msgs (sel (ctx svars) t))) (srecs svars))) t]
       \<and> 0 < length (filter (tuid_lost t (msgs (sel (ctx svars) t))) (srecs svars))"
proof -
  let ?ms = "msgs (sel (ctx svars) t)"
  let ?n = "length (filter (tuid_lost t ?ms) (srecs svars))"
  obtain sv nt nl where f: "fold (match_tuids_rec t) [0..<length (srecs svars)]
             (svars, length ?ms, 0) = (sv, nt, nl)"
    by (cases "fold (match_tuids_rec t) [0..<length (srecs svars)] (svars, length ?ms, 0)") auto
  from mt_inv_fold[of "length (srecs svars)" svars t "length ?ms"] f
  have nl: "nl = ?n"
    and dg: "diags sv = diags svars"
    and r: "srecs sv ! i = lost_rec (srecs svars ! i)"
    and j: "\<exists>a b. jfp sv = jfp svars @ a @ [lost_line (srecs svars ! i)] @ b"
    using assms by (auto simp add: mt_inv_def)
  have "srecs svars ! i \<in> set (filter (tuid_lost t ?ms) (srecs svars))"
    using assms by simp
  then have pos: "0 < ?n" by (cases "filter (tuid_lost t ?ms) (srecs svars)") auto
  have res: "match_tuids t svars = sv\<lparr>diags := diags sv @ [Warn_lost ?n t]\<rparr>"
    using f nl pos by (simp add: match_tuids_def)
  have c0: "tuid0 (clear_tuid x) = CHR 0x00" for x by (cases x) simp_all
  show ?thesis
    using res r j dg pos assms(2)
    by (simp add: lost_rec_def lost_line_def show_uids_def tuid_lost_def c0)
qed

theorem match_tuids_lost_record_witness:
  "0 < length (srecs ex_lost) \<and> tuid_lost S (msgs (sel (ctx ex_lost) S)) (srecs ex_lost ! 0)
   \<and> flags (srecs (match_tuids S ex_lost) ! 0) = 0
   \<and> sel (uid (srecs (match_tuids S ex_lost) ! 0)) S = - 2
   \<and> diags (match_tuids S ex_lost) = [Warn_lost 1 S]"
proof -
  have h1: "0 < length (srecs ex_lost)"
    by (simp add: ex_lost_def)
  have h2: "tuid_lost S (msgs (sel (ctx ex_lost) S)) (srecs ex_lost ! 0)"
    by (simp add: ex_lost_def sync_boxes_init_def ex_store_def ex_msg_def ex_rec_def tuid_lost_def
        tst_def S_DEAD_def M_DEAD_def M_FLAGS_def TUIDL_def)
  have h3: "filter (tuid_lost S (msgs (sel (ctx ex_lost) S))) (srecs ex_lost) = srecs ex_lost"
    using h2 by (simp add: ex_lost_def)
  from match_tuids_lost_record[OF h1 h2] h1 h2 h3 show ?thesis
    by (simp add: ex_lost_def sync_boxes_init_def ex_rec_def)
qed

lemma other_neq: "other t \<noteq> t" "t \<noteq> other t" "other (other t) = t"
  by (cases t; simp)+

text \<open>
  Claim C5. An unpaired message of side \<open>1-t\<close> that is considered for propagation to side
  \<open>t\<close> (the channel has \<^verbatim>\<open>OP_NEW\<close> for \<open>t\<close>): with \<^verbatim>\<open>OP_EXPUNGE\<close> for \<open>t\<close> and \<^verbatim>\<open>F_DELETED\<close> on
  the message nothing happens at all; otherwise a record is created, and a copy is
  scheduled exactly when the message has \<^verbatim>\<open>F_FLAGGED\<close> or its size is at most the
  \<^verbatim>\<open>max_size\<close> of the destination store; when no copy is scheduled, the new record gets
  \<^verbatim>\<open>uid[t] = -1\<close> and the message is linked to it.
\<close>

theorem unpaired_new_message:
  assumes "k < length (msgs (sel (ctx svars) (other t)))"
    and "msg_srec (msgs (sel (ctx svars) (other t)) ! k) = None"
    and "tst (sel (ops (chan svars)) t) OP_NEW"
  shows "(let tmsg = msgs (sel (ctx svars) (other t)) ! k;
              svars' = sync_new_msg junk rnd t k svars;
              n = length (srecs svars)
          in if tst (sel (ops (chan svars)) t) OP_EXPUNGE \<and> tst (msg_flags tmsg) F_DELETED
             then svars' = svars
             else if tst (msg_flags tmsg) F_FLAGGED \<or> msg_size tmsg \<le> max_size (sel (stores (chan svars)) t)
             then calls svars' = calls svars @ [Copy_msg t k (Some n) CB_msg_copied]
                \<and> sel (new_total svars') t = sel (new_total svars) t + 1
                \<and> length (srecs svars') = Suc n
                \<and> sel (uid (srecs svars' ! n)) t = - 2
                \<and> sel (uid (srecs svars' ! n)) (other t) = msg_uid tmsg
             else calls svars' = calls svars
                \<and> new_total svars' = new_total svars
                \<and> length (srecs svars') = Suc n
                \<and> sel (uid (srecs svars' ! n)) t = - 1
                \<and> sel (uid (srecs svars' ! n)) (other t) = msg_uid tmsg
                \<and> msg_srec (msgs (sel (ctx svars') (other t)) ! k) = Some n)"
  using assms
  by (auto simp add: Let_def sync_new_msg_def is_new_msg_def msg_copied_p2_def set_srec_def
      Fprintf_j_def sel_upd other_neq nth_append set_msg_srec_fields sel_ctx_set_msg_srec)

theorem unpaired_new_message_witness:
  "0 < length (msgs (sel (ctx ex_new) (other S)))
   \<and> msg_srec (msgs (sel (ctx ex_new) (other S)) ! 0) = None
   \<and> tst (sel (ops (chan ex_new)) S) OP_NEW
   \<and> calls (sync_new_msg (ex_rec 0 0 0 0 []) [] S 0 ex_new) = []
   \<and> uid (srecs (sync_new_msg (ex_rec 0 0 0 0 []) [] S 0 ex_new) ! 0) = (7, - 1)"
proof -
  have h1: "0 < length (msgs (sel (ctx ex_new) (other S)))"
    by (simp add: ex_new_def sync_boxes_init_def ex_store_def)
  have h2: "msg_srec (msgs (sel (ctx ex_new) (other S)) ! 0) = None"
    by (simp add: ex_new_def sync_boxes_init_def ex_store_def ex_msg_def)
  have h3: "tst (sel (ops (chan ex_new)) S) OP_NEW"
    by (simp add: ex_new_def sync_boxes_init_def ex_chan_def tst_def OP_NEW_def)
  have e: "\<not> tst (msg_flags (msgs (sel (ctx ex_new) (other S)) ! 0)) F_DELETED"
       "\<not> tst (msg_flags (msgs (sel (ctx ex_new) (other S)) ! 0)) F_FLAGGED"
       "\<not> msg_size (msgs (sel (ctx ex_new) (other S)) ! 0) \<le> max_size (sel (stores (chan ex_new)) S)"
       "msg_uid (msgs (sel (ctx ex_new) (other S)) ! 0) = 7"
       "calls ex_new = []" "srecs ex_new = []"
    by (simp_all add: ex_new_def sync_boxes_init_def ex_store_def ex_msg_def ex_chan_def
        ex_store_conf_def tst_def)
  obtain a b where ab: "uid (srecs (sync_new_msg (ex_rec 0 0 0 0 []) [] S 0 ex_new) ! 0) = (a, b)"
    by (cases "uid (srecs (sync_new_msg (ex_rec 0 0 0 0 []) [] S 0 ex_new) ! 0)")
  from unpaired_new_message[OF h1 h2 h3, of "ex_rec 0 0 0 0 []" "[]"] h1 h2 h3 e ab
  show ?thesis by (simp add: Let_def)
qed



lemma tst_or_iff: "tst (x OR y) b = (tst x b \<or> tst y b)"
  by (auto simp add: tst_def bit_eq_iff bit_simps)

lemma basic_fields:
  "ret (Fprintf_j l sv) = ret sv" "calls (Fprintf_j l sv) = calls sv" "state (Fprintf_j l sv) = state sv"
  "srecs (Fprintf_j l sv) = srecs sv" "jfp (Fprintf_j l sv) = jfp sv @ [l]"
  "ret (set_srec i r sv) = ret sv" "calls (set_srec i r sv) = calls sv" "state (set_srec i r sv) = state sv"
  "srecs (set_srec i r sv) = (srecs sv)[i := r]" "jfp (set_srec i r sv) = jfp sv"
  "ret (or_state t b sv) = ret sv" "calls (or_state t b sv) = calls sv"
  "state (or_state t b sv) = upd (state sv) t (sel (state sv) t OR b)"
  "srecs (or_state t b sv) = srecs sv" "jfp (or_state t b sv) = jfp sv"
  "maxuid (Fprintf_j l sv) = maxuid sv" "maxuid (set_srec i r sv) = maxuid sv"
  "smaxxuid (Fprintf_j l sv) = smaxxuid sv" "smaxxuid (set_srec i r sv) = smaxxuid sv"
  by (simp_all add: Fprintf_j_def set_srec_def or_state_def)

lemma end_fields:
  "ret (sync_bail sv) = ret sv" "calls (sync_bail sv) = calls sv" "state (sync_bail sv) = state sv"
  "srecs (sync_bail sv) = srecs sv" "jfp (sync_bail sv) = jfp sv" "nfp (sync_bail sv) = nfp sv"
  "ret (sync_bail2 sv) = ret sv" "calls (sync_bail2 sv) = calls sv" "state (sync_bail2 sv) = state sv"
  "srecs (sync_bail2 sv) = srecs sv" "jfp (sync_bail2 sv) = jfp sv" "nfp (sync_bail2 sv) = nfp sv"
  "ret (Fclose_nfp sv) = ret sv" "calls (Fclose_nfp sv) = calls sv" "state (Fclose_nfp sv) = state sv"
  "srecs (Fclose_nfp sv) = srecs sv" "jfp (Fclose_nfp sv) = jfp sv" "nfp (Fclose_nfp sv) = nfp sv"
  "ret (Fclose_jfp sv) = ret sv" "calls (Fclose_jfp sv) = calls sv" "state (Fclose_jfp sv) = state sv"
  "srecs (Fclose_jfp sv) = srecs sv" "jfp (Fclose_jfp sv) = jfp sv" "nfp (Fclose_jfp sv) = nfp sv"
  "ret (commit_files e sv) = ret sv" "calls (commit_files e sv) = calls sv" "state (commit_files e sv) = state sv"
  "srecs (commit_files e sv) = srecs sv" "jfp (commit_files e sv) = jfp sv" "nfp (commit_files e sv) = nfp sv"
  "ret (write_state sv) = ret sv" "calls (write_state sv) = calls sv" "state (write_state sv) = state sv"
  "srecs (write_state sv) = srecs sv" "jfp (write_state sv) = jfp sv"
  by (simp_all add: sync_bail_def sync_bail1_def sync_bail2_def Fclose_nfp_def Fclose_jfp_def
      commit_files_def write_state_def)

text \<open>The purge: one record at a time.\<close>

lemma purge_rec_frame:
  "ret (purge_rec m j sv) = ret sv \<and> calls (purge_rec m j sv) = calls sv
   \<and> state (purge_rec m j sv) = state sv \<and> maxuid (purge_rec m j sv) = maxuid sv
   \<and> smaxxuid (purge_rec m j sv) = smaxxuid sv
   \<and> length (srecs (purge_rec m j sv)) = length (srecs sv)
   \<and> (\<forall>i. i \<noteq> j \<longrightarrow> srecs (purge_rec m j sv) ! i = srecs sv ! i)
   \<and> (\<exists>a. jfp (purge_rec m j sv) = jfp sv @ a)"
  by (simp add: purge_rec_def Let_def basic_fields)

lemma purge_rec_dead:
  "tst (status (srecs sv ! j)) S_DEAD \<Longrightarrow> purge_rec m j sv = sv"
  by (simp add: purge_rec_def)

lemma purge_inv_fold:
  "purge_inv sv n (fold (purge_rec m) [0..<n] sv)"
proof (induction n)
  case 0
  show ?case by (simp add: purge_inv_def)
next
  case (Suc n)
  let ?sv1 = "fold (purge_rec m) [0..<n] sv"
  from Suc have inv: "purge_inv sv n ?sv1" .
  have step: "fold (purge_rec m) [0..<Suc n] sv = purge_rec m n ?sv1" by simp
  from purge_rec_frame[of m n ?sv1] inv
  have a: "ret (purge_rec m n ?sv1) = ret sv" "calls (purge_rec m n ?sv1) = calls sv"
    "state (purge_rec m n ?sv1) = state sv" "maxuid (purge_rec m n ?sv1) = maxuid sv"
    "smaxxuid (purge_rec m n ?sv1) = smaxxuid sv"
    "length (srecs (purge_rec m n ?sv1)) = length (srecs sv)"
    "\<forall>i\<ge>Suc n. srecs (purge_rec m n ?sv1) ! i = srecs sv ! i"
    "\<exists>a. jfp (purge_rec m n ?sv1) = jfp sv @ a"
    by (auto simp add: purge_inv_def)
  have d: "srecs (purge_rec m n ?sv1) ! i = srecs sv ! i" if "tst (status (srecs sv ! i)) S_DEAD" for i
  proof (cases "i = n")
    case True
    from inv have "srecs ?sv1 ! n = srecs sv ! n" by (simp add: purge_inv_def)
    with that True have "tst (status (srecs ?sv1 ! n)) S_DEAD" by simp
    from purge_rec_dead[OF this] inv that True show ?thesis by (simp add: purge_inv_def)
  next
    case False
    with purge_rec_frame[of m n ?sv1] inv that show ?thesis by (simp add: purge_inv_def)
  qed
  show ?case unfolding step purge_inv_def using a d by simp
qed

lemma purge_frame: "purge_inv sv (length (srecs sv)) (purge sv)"
proof (cases "tst (sel (state sv) M OR sel (state sv) S) ST_DID_EXPUNGE")
  case True
  then show ?thesis using purge_inv_fold[of sv "length (srecs sv)"] by (simp add: purge_def Let_def)
next
  case False
  then show ?thesis by (simp add: purge_def purge_inv_def)
qed














lemma tst_S_DEAD: "tst S_DEAD S_DEAD"
  by (simp add: tst_def S_DEAD_def)

lemma purge_rec_purged:
  assumes "j < length (srecs sv)"
  shows "purged (srecs sv ! j) (srecs (purge_rec m j sv) ! j)"
  using assms
  by (auto simp add: purged_def purge_rec_def Let_def basic_fields tst_S_DEAD sel_upd)

lemma purged_inv_fold:
  "n \<le> length (srecs sv) \<Longrightarrow> purged_inv sv n (fold (purge_rec m) [0..<n] sv)"
proof (induction n)
  case 0
  show ?case by (simp add: purged_inv_def)
next
  case (Suc n)
  let ?sv1 = "fold (purge_rec m) [0..<n] sv"
  from Suc have inv: "purged_inv sv n ?sv1" and n: "n < length (srecs sv)" by simp_all
  have fr: "purge_inv sv n ?sv1" by (rule purge_inv_fold)
  then have same: "srecs ?sv1 ! n = srecs sv ! n" and len: "length (srecs ?sv1) = length (srecs sv)"
    by (simp_all add: purge_inv_def)
  have "purged (srecs sv ! i) (srecs (purge_rec m n ?sv1) ! i)" if "i < Suc n" for i
  proof (cases "i = n")
    case True
    with purge_rec_purged[of n ?sv1 m] n len same show ?thesis by simp
  next
    case False
    with that have "i < n" by simp
    with inv have "purged (srecs sv ! i) (srecs ?sv1 ! i)" by (simp add: purged_inv_def)
    with purge_rec_frame[of m n ?sv1] False show ?thesis by simp
  qed
  then show ?case by (simp add: purged_inv_def)
qed

lemma purge_rec_shape:
  "purge_rec m j sv = sv\<lparr>srecs := srecs (purge_rec m j sv), jfp := jfp (purge_rec m j sv)\<rparr>"
  by (simp add: purge_rec_def Let_def Fprintf_j_def set_srec_def)

lemma purge_fold_shape:
  "fold (purge_rec m) [0..<n] sv
     = sv\<lparr>srecs := srecs (fold (purge_rec m) [0..<n] sv), jfp := jfp (fold (purge_rec m) [0..<n] sv)\<rparr>"
proof (induction n)
  case 0
  show ?case by simp
next
  case (Suc n)
  let ?a = "fold (purge_rec m) [0..<n] sv"
  have "purge_rec m n ?a = ?a\<lparr>srecs := srecs (purge_rec m n ?a), jfp := jfp (purge_rec m n ?a)\<rparr>"
    by (rule purge_rec_shape)
  also have "\<dots> = (sv\<lparr>srecs := srecs ?a, jfp := jfp ?a\<rparr>)
                     \<lparr>srecs := srecs (purge_rec m n ?a), jfp := jfp (purge_rec m n ?a)\<rparr>"
    using Suc by simp
  finally show ?case by simp
qed

lemma purge_shape: "purge sv = sv\<lparr>srecs := srecs (purge sv), jfp := jfp (purge sv)\<rparr>"
  using purge_fold_shape[of _ "length (srecs sv)" sv] by (simp add: purge_def Let_def)

lemma purge_fields:
  "nfp (purge sv) = nfp sv" "uidval (purge sv) = uidval sv" "maxuid (purge sv) = maxuid sv"
  "smaxxuid (purge sv) = smaxxuid sv" "fs (purge sv) = fs sv" "state (purge sv) = state sv"
  by (subst purge_shape, simp)+

lemma purge_purged:
  assumes "tst (sel (state sv) M OR sel (state sv) S) ST_DID_EXPUNGE" and "i < length (srecs sv)"
  shows "purged (srecs sv ! i) (srecs (purge sv) ! i)"
  using assms purged_inv_fold[of "length (srecs sv)" sv]
  by (simp add: purge_def Let_def purged_inv_def)

lemma show_int_5: "show_int 5 = ''5''" "show_int (- 1) = ''-1''" "show_int 1 = ''1''" "show_int 0 = ''0''"
  by code_simp+

text \<open>
  Claim C1 as stated fails: a record of a message that was skipped for its size
  (\<^verbatim>\<open>uid[S] = -1\<close>) is live when the run commits, and is written to the new state with its
  placeholder.
\<close>

theorem committed_placeholder_counterexample:
  "nfp (box_closed_p2 ex_env S ex_skipped) = [''1:5 1:0:0\<newline>'', ''5 -1 \<newline>'']
   \<and> dfile (fs (box_closed_p2 ex_env S ex_skipped)) = Content ''1:5 1:0:0\<newline>5 -1 \<newline>''
   \<and> \<not> tst (status (srecs (box_closed_p2 ex_env S ex_skipped) ! 0)) S_DEAD
   \<and> sel (uid (srecs (box_closed_p2 ex_env S ex_skipped) ! 0)) S = - 1"
  by (simp add: box_closed_p2_def ex_skipped_def ex_env_def sync_boxes_init_def ex_rec_def or_state_def
      purge_def write_state_def header_line_def entry_line_def Fclose_nfp_def Fclose_jfp_def
      commit_files_def sync_bail_def sync_bail1_def sync_bail2_def Let_def tst_def show_int_5
      make_flags_def Flags_def no_files_def
      ST_CLOSED_def ST_DID_EXPUNGE_def S_DEAD_def S_DONE_def S_EXPIRED_def)

text \<open>
  Claim C1, as amended. When \<^verbatim>\<open>box_closed_p2\<close> commits (the other side is closed), the
  lines written to the new state are the header and one line for each record that is not
  \<^verbatim>\<open>S_DEAD\<close> after the purge, and, unless the journal is kept, they are the content of the
  new sync state. Each UID of a record that is written is the UID the record had before
  the purge, or 0: the purge creates no placeholder and removes none. After an expunge
  every written record has a positive UID on some side.
\<close>

theorem commit_writes_live_records:
  assumes "tst (sel (state svars) (other t)) ST_CLOSED"
    and "i < length (srecs svars)"
  shows "nfp (box_closed_p2 e t svars)
           = nfp svars @ header_line svars #
             map entry_line (filter (\<lambda>srec. \<not> tst (status srec) S_DEAD) (srecs (box_closed_p2 e t svars)))
       \<and> (if keep_journal e then dfile (fs (box_closed_p2 e t svars)) = dfile (fs svars)
           else dfile (fs (box_closed_p2 e t svars)) = Content (concat (nfp (box_closed_p2 e t svars))))
       \<and> length (srecs (box_closed_p2 e t svars)) = length (srecs svars)
       \<and> (tst (status (srecs (box_closed_p2 e t svars) ! i)) S_DEAD
           \<or> ((sel (uid (srecs (box_closed_p2 e t svars) ! i)) M = sel (uid (srecs svars ! i)) M
                \<or> sel (uid (srecs (box_closed_p2 e t svars) ! i)) M = 0)
              \<and> (sel (uid (srecs (box_closed_p2 e t svars) ! i)) S = sel (uid (srecs svars ! i)) S
                \<or> sel (uid (srecs (box_closed_p2 e t svars) ! i)) S = 0)
              \<and> (if tst (sel (state (box_closed_p2 e t svars)) M OR sel (state (box_closed_p2 e t svars)) S)
                        ST_DID_EXPUNGE
                  then 0 < sel (uid (srecs (box_closed_p2 e t svars) ! i)) M
                       \<or> 0 < sel (uid (srecs (box_closed_p2 e t svars) ! i)) S
                  else srecs (box_closed_p2 e t svars) ! i = srecs svars ! i)))"
proof -
  let ?s1 = "or_state t ST_CLOSED svars"
  let ?s2 = "purge ?s1"
  let ?r = "sync_bail (commit_files e (Fclose_jfp (Fclose_nfp (write_state ?s2))))"
  have closed: "tst (sel (state ?s1) (other t)) ST_CLOSED"
    using assms(1) by (simp add: or_state_def sel_upd other_neq)
  then have res: "box_closed_p2 e t svars = ?r"
    by (simp add: box_closed_p2_def Let_def)
  have hl: "header_line ?s2 = header_line svars"
    by (simp add: header_line_def purge_fields or_state_def)
  have rs: "srecs ?r = srecs ?s2" by (simp add: end_fields)
  have st: "state ?r = state ?s1" by (simp add: end_fields purge_fields)
  have n: "nfp ?r = nfp svars @ header_line svars #
             map entry_line (filter (\<lambda>srec. \<not> tst (status srec) S_DEAD) (srecs ?s2))"
    using hl by (simp add: end_fields write_state_def purge_fields or_state_def)
  have f: "if keep_journal e then dfile (fs ?r) = dfile (fs svars)
           else dfile (fs ?r) = Content (concat (nfp ?r))"
    by (simp add: sync_bail_def sync_bail1_def sync_bail2_def commit_files_def Fclose_jfp_def
        Fclose_nfp_def write_state_def purge_fields or_state_def)
  have len: "length (srecs ?s2) = length (srecs svars)"
    using purge_frame[of ?s1] by (simp add: purge_inv_def basic_fields)
  have i1: "i < length (srecs ?s1)" using assms(2) by (simp add: basic_fields)
  have rec: "tst (status (srecs ?s2 ! i)) S_DEAD
           \<or> ((sel (uid (srecs ?s2 ! i)) M = sel (uid (srecs svars ! i)) M \<or> sel (uid (srecs ?s2 ! i)) M = 0)
              \<and> (sel (uid (srecs ?s2 ! i)) S = sel (uid (srecs svars ! i)) S \<or> sel (uid (srecs ?s2 ! i)) S = 0)
              \<and> (if tst (sel (state ?s1) M OR sel (state ?s1) S) ST_DID_EXPUNGE
                  then 0 < sel (uid (srecs ?s2 ! i)) M \<or> 0 < sel (uid (srecs ?s2 ! i)) S
                  else srecs ?s2 ! i = srecs svars ! i))"
  proof (cases "tst (sel (state ?s1) M OR sel (state ?s1) S) ST_DID_EXPUNGE")
    case True
    from purge_purged[OF True i1] True show ?thesis
      by (auto simp add: purged_def basic_fields)
  next
    case False
    then show ?thesis by (simp add: purge_def basic_fields)
  qed
  show ?thesis
    unfolding res rs st using n f len rec by simp
qed

theorem commit_writes_live_records_witness:
  "tst (sel (state ex_skipped) (other S)) ST_CLOSED \<and> 0 < length (srecs ex_skipped)
   \<and> nfp (box_closed_p2 ex_env S ex_skipped)
       = header_line ex_skipped #
         map entry_line (filter (\<lambda>srec. \<not> tst (status srec) S_DEAD) (srecs (box_closed_p2 ex_env S ex_skipped)))
   \<and> length (srecs (box_closed_p2 ex_env S ex_skipped)) = 1"
proof -
  have h1: "tst (sel (state ex_skipped) (other S)) ST_CLOSED"
    by (simp add: ex_skipped_def tst_def ST_CLOSED_def)
  have h2: "0 < length (srecs ex_skipped)"
    by (simp add: ex_skipped_def)
  have e: "nfp ex_skipped = []" "length (srecs ex_skipped) = 1"
    by (simp_all add: ex_skipped_def sync_boxes_init_def)
  from commit_writes_live_records[OF h1 h2, of ex_env] h1 h2 e show ?thesis by simp
qed

lemma unloaded_fields:
  "fs sv = fs (unloaded sv)" "calls sv = calls (unloaded sv)" "jfp sv = jfp (unloaded sv)"
  "nfp sv = nfp (unloaded sv)" "ctx sv = ctx (unloaded sv)" "diags sv = diags (unloaded sv)"
  "ret sv = ret (unloaded sv)" "state sv = state (unloaded sv)" "chan sv = chan (unloaded sv)"
  "lfd sv = lfd (unloaded sv)"
  by (simp_all add: unloaded_def)

lemma read_state_unloaded:
  "read_state junk sv = Inr sv' \<Longrightarrow> unloaded sv' = unloaded sv"
  by (auto simp add: read_state_def unloaded_def
      split: diskfile.splits list.splits if_splits option.splits sum.splits)

lemma replay_jline_unloaded:
  "replay_jline junk line jl (sv, cur) = Inr (sv', cur') \<Longrightarrow> unloaded sv' = unloaded sv"
  unfolding replay_jline_def unloaded_def
  by (cases jl) (auto split: if_splits option.splits prod.splits)

lemma replay_lines_unloaded:
  "replay_lines junk line bufs (sv, cur) = Inr (sv', cur') \<Longrightarrow> unloaded sv' = unloaded sv"
proof (induction bufs arbitrary: line sv cur)
  case Nil
  then show ?case by simp
next
  case (Cons buf rest)
  from Cons.prems obtain jl sv1 cur1 where
    s1: "replay_jline junk (Suc line) jl (sv, cur) = Inr (sv1, cur1)"
    and s2: "replay_lines junk (Suc line) rest (sv1, cur1) = Inr (sv', cur')"
    by (auto split: if_splits option.splits sum.splits)
  from replay_jline_unloaded[OF s1] Cons.IH[OF s2] show ?case by simp
qed

lemma replay_journal_unloaded:
  "replay_journal junk txt sv = Inr sv' \<Longrightarrow> unloaded sv' = unloaded sv"
  by (auto simp add: replay_journal_def split: list.splits if_splits sum.splits
      dest: replay_lines_unloaded)

lemma read_journal_unloaded:
  "read_journal junk sv = Inr (sv', r) \<Longrightarrow> unloaded sv' = unloaded sv"
  by (auto simp add: read_journal_def split: diskfile.splits if_splits sum.splits
      dest: replay_journal_unloaded)

lemma load_state_unloaded:
  "load_state junk sv = Inr (sv', r) \<Longrightarrow> unloaded sv' = unloaded sv"
  by (auto simp add: load_state_def split: sum.splits
      dest!: read_journal_unloaded read_state_unloaded)

text \<open>
  Claim C8. When the new state file does not exist, the load procedure does not replay
  the journal (a journal that cannot be opened at all is still an error): what is loaded
  is exactly what reading the sync state gives, and no journal counts as replayed.
\<close>

theorem journal_ignored_without_new_state:
  assumes "nfile (fs svars) = Absent" and "jfile (fs svars) = Content txt"
  shows "load_state junk svars = (case read_state junk svars of Inl err \<Rightarrow> Inl err
                                   | Inr svars' \<Rightarrow> Inr (svars', False))"
proof (cases "read_state junk svars")
  case (Inl err)
  then show ?thesis by (simp add: load_state_def)
next
  case (Inr svars')
  from read_state_unloaded[OF Inr] have "fs svars' = fs svars"
    using unloaded_fields(1)[of svars'] unloaded_fields(1)[of svars] by simp
  with assms Inr show ?thesis
    by (simp add: load_state_def read_journal_def)
qed

theorem journal_ignored_without_new_state_witness:
  "nfile (fs ex_crashed) = Absent \<and> jfile (fs ex_crashed) = Content ''2\<newline>- 5 3\<newline>''
   \<and> load_state (ex_rec 0 0 0 0 []) ex_crashed
       = Inr (ex_crashed\<lparr>uidval := (1, 1), maxuid := (5, 3), smaxxuid := 0,
                         srecs := [ex_rec 5 3 0 F_SEEN []]\<rparr>, False)"
proof -
  have h1: "nfile (fs ex_crashed) = Absent" and h2: "jfile (fs ex_crashed) = Content ''2\<newline>- 5 3\<newline>''"
    by (simp_all add: ex_crashed_def)
  have r: "read_state (ex_rec 0 0 0 0 []) ex_crashed
       = Inr (ex_crashed\<lparr>uidval := (1, 1), maxuid := (5, 3), smaxxuid := 0,
                         srecs := [ex_rec 5 3 0 F_SEEN []]\<rparr>)"
    by code_simp
  from journal_ignored_without_new_state[OF h1 h2, of "ex_rec 0 0 0 0 []"] h1 h2 r
  show ?thesis by simp
qed

text \<open>With the new state file in place the same journal is replayed: the record is dead.\<close>

lemma journal_replayed_example:
  "load_state (ex_rec 0 0 0 0 []) (ex_crashed\<lparr>fs := (fs ex_crashed)\<lparr>nfile := Content []\<rparr>\<rparr>)
     = Inr (ex_crashed\<lparr>fs := (fs ex_crashed)\<lparr>nfile := Content []\<rparr>, uidval := (1, 1), maxuid := (5, 3),
                       smaxxuid := 0, srecs := [ex_rec 5 3 S_DEAD F_SEEN []]\<rparr>, True)"
  by code_simp

lemma bail_fields:
  "ret (bail es sv) = SYNC_FAIL" "calls (bail es sv) = calls sv" "jfp (bail es sv) = jfp sv"
  "nfp (bail es sv) = nfp sv" "ctx (bail es sv) = ctx sv"
  "diags (bail es sv) = diags sv @ map Err es @ [Bail SYNC_FAIL]"
  "dfile (fs (bail es sv)) = dfile (fs sv)" "jfile (fs (bail es sv)) = jfile (fs sv)"
  "nfile (fs (bail es sv)) = nfile (fs sv)"
  by (simp_all add: bail_def sync_bail_def sync_bail1_def sync_bail2_def)

text \<open>
  Claim C9. If, after the load, the recorded UIDVALIDITY of a side is set (not negative)
  and differs from the UIDVALIDITY of the opened store, \<^verbatim>\<open>box_selected\<close> ends the channel
  with \<^verbatim>\<open>SYNC_FAIL\<close> after printing the error: no driver call is issued, nothing is written
  to the journal or to the new state, and the sync state, the journal, the new state file
  and both stores are as they were.
\<close>

theorem uidvalidity_mismatch_aborts:
  assumes "lock e = Lock_ok"
    and "load_state junk (svars\<lparr>lfd := lock_fd e, fs := (fs svars)\<lparr>lfile := True\<rparr>\<rparr>) = Inr (loaded, recovered)"
    and "0 \<le> sel (uidval loaded) t"
    and "sel (uidval loaded) t \<noteq> uidvalidity (sel (ctx svars) t)"
  shows "ret (box_selected e junk svars) = SYNC_FAIL
       \<and> (\<exists>ds. diags (box_selected e junk svars) = diags svars @ ds @ [Bail SYNC_FAIL]
                \<and> Err (Uidvalidity_changed t) \<in> set ds)
       \<and> calls (box_selected e junk svars) = calls svars
       \<and> jfp (box_selected e junk svars) = jfp svars
       \<and> nfp (box_selected e junk svars) = nfp svars
       \<and> dfile (fs (box_selected e junk svars)) = dfile (fs svars)
       \<and> jfile (fs (box_selected e junk svars)) = jfile (fs svars)
       \<and> nfile (fs (box_selected e junk svars)) = nfile (fs svars)
       \<and> ctx (box_selected e junk svars) = ctx svars"
proof -
  let ?s0 = "svars\<lparr>lfd := lock_fd e, fs := (fs svars)\<lparr>lfile := True\<rparr>\<rparr>"
  from load_state_unloaded[OF assms(2)] have u: "unloaded loaded = unloaded ?s0" .
  have f: "fs loaded = fs ?s0" "calls loaded = calls ?s0" "jfp loaded = jfp ?s0" "nfp loaded = nfp ?s0"
    "ctx loaded = ctx ?s0" "diags loaded = diags ?s0"
    using u unloaded_fields[of loaded] unloaded_fields[of ?s0] by simp_all
  have "t \<in> set [M, S]" by (cases t) simp_all
  then have "t \<in> set (filter (\<lambda>t. sel (uidval loaded) t \<ge> 0
                 \<and> sel (uidval loaded) t \<noteq> uidvalidity (sel (ctx loaded) t)) [M, S])"
    using assms(3,4) f(5) unfolding set_filter by simp
  then have mem: "Uidvalidity_changed t \<in> set (uidval_errors loaded)"
    unfolding uidval_errors_def set_map by (rule imageI)
  then have ne: "uidval_errors loaded \<noteq> []" by auto
  have res: "box_selected e junk svars = bail (uidval_errors loaded) loaded"
    using assms(1,2) ne by (simp add: box_selected_def Let_def)
  have d: "\<exists>ds. diags (box_selected e junk svars) = diags svars @ ds @ [Bail SYNC_FAIL]
                \<and> Err (Uidvalidity_changed t) \<in> set ds"
  proof (intro exI conjI)
    show "diags (box_selected e junk svars) = diags svars @ map Err (uidval_errors loaded) @ [Bail SYNC_FAIL]"
      unfolding res by (simp add: bail_fields f)
    show "Err (Uidvalidity_changed t) \<in> set (map Err (uidval_errors loaded))"
      using mem by simp
  qed
  show ?thesis
    using d unfolding res by (simp add: bail_fields f)
qed

theorem uidvalidity_mismatch_aborts_witness:
  "lock ex_env = Lock_ok
   \<and> load_state (ex_rec 0 0 0 0 []) (ex_changed\<lparr>lfd := lock_fd ex_env, fs := (fs ex_changed)\<lparr>lfile := True\<rparr>\<rparr>)
       = Inr (ex_changed\<lparr>lfd := 3, fs := (fs ex_changed)\<lparr>lfile := True\<rparr>, uidval := (7, 1),
                          maxuid := (5, 3), smaxxuid := 0, srecs := [ex_rec 5 3 0 F_SEEN []]\<rparr>, False)
   \<and> uidvalidity (sel (ctx ex_changed) M) = 1
   \<and> ret (box_selected ex_env (ex_rec 0 0 0 0 []) ex_changed) = SYNC_FAIL
   \<and> calls (box_selected ex_env (ex_rec 0 0 0 0 []) ex_changed) = []
   \<and> dfile (fs (box_selected ex_env (ex_rec 0 0 0 0 []) ex_changed)) = Content ''7:5 1:0:3\<newline>5 3 S\<newline>''
   \<and> nfile (fs (box_selected ex_env (ex_rec 0 0 0 0 []) ex_changed)) = Absent"
proof -
  let ?l = "ex_changed\<lparr>lfd := 3, fs := (fs ex_changed)\<lparr>lfile := True\<rparr>, uidval := (7, 1),
                          maxuid := (5, 3), smaxxuid := 0, srecs := [ex_rec 5 3 0 F_SEEN []]\<rparr>"
  have h1: "lock ex_env = Lock_ok" by (simp add: ex_env_def)
  have h2: "load_state (ex_rec 0 0 0 0 []) (ex_changed\<lparr>lfd := lock_fd ex_env, fs := (fs ex_changed)\<lparr>lfile := True\<rparr>\<rparr>)
       = Inr (?l, False)"
    by code_simp
  have h3: "0 \<le> sel (uidval ?l) M" by simp
  have v: "uidvalidity (sel (ctx ex_changed) M) = 1"
    by (simp add: ex_changed_def sync_boxes_init_def ex_store_def)
  have h4: "sel (uidval ?l) M \<noteq> uidvalidity (sel (ctx ex_changed) M)"
    using v by simp
  have e: "calls ex_changed = []" "dfile (fs ex_changed) = Content ''7:5 1:0:3\<newline>5 3 S\<newline>''"
    "nfile (fs ex_changed) = Absent"
    by (simp_all add: ex_changed_def sync_boxes_init_def)
  from uidvalidity_mismatch_aborts[OF h1 h2 h3 h4] h1 h2 v e show ?thesis by simp
qed

lemma find_uids_bound: "find_uids t1 t2 recs k = Some j \<Longrightarrow> k \<le> j \<and> j < k + length recs"
proof (induction recs arbitrary: k)
  case Nil
  then show ?case by simp
next
  case (Cons a recs)
  then show ?case by (fastforce split: if_splits)
qed

lemma find_uids_match:
  "find_uids t1 t2 recs k = Some j \<Longrightarrow> uid (recs ! (j - k)) = (t1, t2)"
proof (induction recs arbitrary: k)
  case Nil
  then show ?case by simp
next
  case (Cons a recs)
  show ?case
  proof (cases "sel (uid a) M = t1 \<and> sel (uid a) S = t2")
    case True
    with Cons.prems show ?thesis by (cases "uid a") simp
  next
    case False
    with Cons.prems have f: "find_uids t1 t2 recs (Suc k) = Some j" by auto
    from find_uids_bound[OF f] have "Suc k \<le> j" by simp
    then have "j - k = Suc (j - Suc k)" by simp
    with Cons.IH[OF f] show ?thesis by simp
  qed
qed

lemma find_srec_bound: "find_srec t1 t2 recs cur = Some j \<Longrightarrow> j < length recs"
  by (auto simp add: find_srec_def split: option.splits dest!: find_uids_bound)






declare show_nat.simps [simp del]

lemma char_eq_iff_nat: "(c = d) = ((of_char c :: nat) = of_char d)"
  by (auto dest: injD[OF inj_of_char])

lemma isspace_nat: "isspace c = ((of_char c :: nat) \<in> {32, 9, 10, 11, 12, 13})"
  by (auto simp add: isspace_def char_eq_iff_nat[of c])

lemma of_char_digit: "d < 10 \<Longrightarrow> (of_char (digit_char d) :: nat) = 48 + d"
  by (simp add: digit_char_def)

lemma digit_char_props:
  assumes "d < 10"
  shows "isdigit (digit_char d)" "\<not> isspace (digit_char d)" "digit_char d \<noteq> CHR 0x00"
    "digit_char d \<noteq> CHR ''\<newline>''" "digit_char d \<noteq> CHR ''-''" "digit_char d \<noteq> CHR ''+''"
    "of_char (digit_char d) - 48 = d"
  using assms of_char_digit[OF assms]
  by (simp_all add: isdigit_def isspace_nat char_eq_iff_nat[of "digit_char d"])

lemma show_nat_unfold:
  "show_nat n = (if n < 10 then [digit_char n] else show_nat (n div 10) @ [digit_char (n mod 10)])"
  by (rule show_nat.simps)

lemma show_nat_digits: "list_all isdigit (show_nat n)"
proof (induction n rule: show_nat.induct)
  case (1 n)
  show ?case
    by (subst show_nat_unfold) (use 1 in \<open>simp add: digit_char_props\<close>)
qed

lemma show_nat_nonempty: "show_nat n \<noteq> []"
  by (subst show_nat_unfold) simp

lemma digits_val_snoc: "digits_val (ds @ [c]) = 10 * digits_val ds + (of_char c - 48)"
  by (simp add: digits_val_def)

lemma digits_val_show_nat: "digits_val (show_nat n) = n"
proof (induction n rule: show_nat.induct)
  case (1 n)
  show ?case
  proof (cases "n < 10")
    case True
    then show ?thesis
      by (subst show_nat_unfold) (simp add: digits_val_def digit_char_props)
  next
    case False
    with 1 show ?thesis
      by (subst show_nat_unfold) (simp add: digits_val_snoc digit_char_props)
  qed
qed

lemma show_nat_length: "n < 10 ^ k \<Longrightarrow> 0 < k \<Longrightarrow> length (show_nat n) \<le> k"
proof (induction k arbitrary: n)
  case 0
  then show ?case by simp
next
  case (Suc k)
  show ?case
  proof (cases "n < 10")
    case True
    then show ?thesis by (subst show_nat_unfold) simp
  next
    case False
    with Suc.prems have k: "0 < k" by (cases k) simp_all
    from Suc.prems have "n div 10 < 10 ^ k" by (simp add: less_mult_imp_div_less mult.commute)
    from Suc.IH[OF this k] False show ?thesis by (subst show_nat_unfold) simp
  qed
qed

lemma takeWhile_stops: "list_all P xs \<Longrightarrow> stops P rest \<Longrightarrow> takeWhile P (xs @ rest) = xs"
  by (cases rest) (simp_all add: stops_def list_all_iff takeWhile_append2)

lemma dropWhile_stops: "list_all P xs \<Longrightarrow> stops P rest \<Longrightarrow> dropWhile P (xs @ rest) = rest"
  by (cases rest) (simp_all add: stops_def list_all_iff dropWhile_append2)

lemma scan_d_digits:
  assumes "ds \<noteq> []" and "list_all isdigit ds" and "stops isdigit rest"
  shows "scan_d (ds @ rest) = Some (int (digits_val ds), rest)"
proof -
  obtain c cs where eq: "ds = c # cs" using assms(1) by (cases ds) auto
  with assms(2) have d: "isdigit c" by simp
  then have c: "\<not> isspace c" "c \<noteq> CHR ''-''" "c \<noteq> CHR ''+''"
    by (auto simp add: isdigit_def isspace_nat)
  have sk: "skip_ws (ds @ rest) = c # (cs @ rest)"
    using eq c by (simp add: skip_ws_def)
  have tk: "takeWhile isdigit (c # (cs @ rest)) = ds"
    and dr: "dropWhile isdigit (c # (cs @ rest)) = rest"
    using takeWhile_stops[OF assms(2,3)] dropWhile_stops[OF assms(2,3)] eq by simp_all
  show ?thesis
    unfolding scan_d_def sk Let_def list.case
    using c assms(1) by (simp only: tk dr if_False simp_thms)
qed

lemma scan_d_show_nat:
  assumes "stops isdigit rest"
  shows "scan_d (show_nat n @ rest) = Some (int n, rest)"
  using scan_d_digits[OF show_nat_nonempty show_nat_digits assms, of n]
  by (simp add: digits_val_show_nat)

lemma scan_d_show_int:
  assumes "stops isdigit rest"
  shows "scan_d (show_int i @ rest) = Some (i, rest)"
proof (cases "i < 0")
  case False
  then show ?thesis
    using scan_d_show_nat[OF assms, of "nat i"] by (simp add: show_int_def)
next
  case True
  let ?n = "nat (- i)"
  have tk: "takeWhile isdigit (show_nat ?n @ rest) = show_nat ?n"
    and dr: "dropWhile isdigit (show_nat ?n @ rest) = rest"
    using show_nat_digits[of ?n] assms by (simp_all add: takeWhile_stops dropWhile_stops)
  have sp: "\<not> isspace CHR ''-''" by (simp add: isspace_def)
  show ?thesis
    using True tk dr show_nat_nonempty[of ?n] sp
    by (simp add: show_int_def scan_d_def skip_ws_def Let_def digits_val_show_nat)
qed

lemma isdigit_plain: "isdigit c \<Longrightarrow> plain c"
  by (auto simp add: isdigit_def plain_def isspace_nat char_eq_iff_nat[of c])

lemma show_int_plain: "list_all plain (show_int i)"
proof -
  have "list_all plain (show_nat n)" for n
    using show_nat_digits[of n] by (auto simp add: list_all_iff isdigit_plain)
  moreover have "plain CHR ''-''" by (simp add: plain_def isspace_def)
  ultimately show ?thesis by (simp add: show_int_def)
qed

lemma show_int_length:
  assumes "- (2 ^ 31) \<le> i" and "i < 2 ^ 31"
  shows "length (show_int i) \<le> 11"
proof -
  have "length (show_nat n) \<le> 10" if "n \<le> 2 ^ 31" for n :: nat
  proof -
    from that have "n < 10 ^ 10" by simp
    from show_nat_length[OF this] show ?thesis by simp
  qed
  from this[of "nat i"] this[of "nat (- i)"] assms show ?thesis
    by (auto simp add: show_int_def nat_le_iff)
qed

lemma plain_not_space: "list_all plain w \<Longrightarrow> list_all (\<lambda>c. \<not> isspace c) w"
  by (simp add: list_all_iff plain_def)

lemma scan_s_word:
  assumes "w \<noteq> []" and "list_all plain w" and "length w \<le> n"
    and "stops (\<lambda>c. \<not> isspace c) rest" and "list_all isspace sp"
  shows "scan_s n (sp @ w @ rest) = Some (w, rest)"
proof -
  obtain c cs where eq: "w = c # cs" using assms(1) by (cases w) auto
  with assms(2) have "\<not> isspace c" by (simp add: plain_def)
  then have "stops isspace (w @ rest)" by (simp add: stops_def eq)
  from dropWhile_stops[OF assms(5) this] have sk: "skip_ws (sp @ w @ rest) = w @ rest"
    by (simp add: skip_ws_def)
  have tk: "takeWhile (\<lambda>c. \<not> isspace c) (w @ rest) = w"
    by (rule takeWhile_stops[OF plain_not_space[OF assms(2)] assms(4)])
  show ?thesis
    unfolding scan_s_def sk Let_def tk using assms(1,3) by simp
qed

lemma scan_s_spaces: "list_all isspace sp \<Longrightarrow> scan_s n sp = None"
proof -
  assume "list_all isspace sp"
  then have d: "dropWhile isspace sp = []" by (simp add: list_all_iff)
  show ?thesis unfolding scan_s_def skip_ws_def d by simp
qed

lemma scan_lit_same: "scan_lit c (c # r) = Some r"
  by (simp add: scan_lit_def)

lemma stops_simps:
  "stops P []" "stops P (c # r) = (\<not> P c)"
  by (simp_all add: stops_def)

lemma char_facts:
  "\<not> isdigit CHR '':''" "\<not> isdigit CHR '' ''" "\<not> isdigit CHR ''\<newline>''" "isspace CHR '' ''" "isspace CHR ''\<newline>''"
  "plain CHR '':''" "plain CHR ''X''" "\<not> isdigit CHR ''X''"
  by (simp_all add: isdigit_def isspace_def plain_def)

lemma parse_header_line:
  assumes "is_int (sel (uidval sv) M)" "is_int (sel (maxuid sv) M)" "is_int (sel (uidval sv) S)"
    "is_int (smaxxuid sv)" "is_int (sel (maxuid sv) S)"
  shows "parse_header (header_line sv)
         = Some (sel (uidval sv) M, sel (maxuid sv) M, sel (uidval sv) S, smaxxuid sv, sel (maxuid sv) S)"
proof -
  let ?a = "sel (uidval sv) M" and ?b = "sel (maxuid sv) M" and ?c = "sel (uidval sv) S"
  let ?d = "smaxxuid sv" and ?e = "sel (maxuid sv) S"
  let ?w1 = "show_int ?a @ '':'' @ show_int ?b"
  let ?w2 = "show_int ?c @ '':'' @ show_int ?d @ '':'' @ show_int ?e"
  have len: "length (show_int ?a) \<le> 11" "length (show_int ?b) \<le> 11" "length (show_int ?c) \<le> 11"
    "length (show_int ?d) \<le> 11" "length (show_int ?e) \<le> 11"
    using assms by (simp_all add: is_int_def show_int_length)
  have line: "header_line sv = [] @ ?w1 @ ('' '' @ ?w2 @ ''\<newline>'')"
    by (simp add: header_line_def)
  have w1: "?w1 \<noteq> []" "list_all plain ?w1" "length ?w1 \<le> 63"
    using len by (simp_all add: show_int_plain char_facts)
  have w2: "?w2 \<noteq> []" "list_all plain ?w2" "length ?w2 \<le> 63"
    using len by (simp_all add: show_int_plain char_facts)
  have s1: "scan_s 63 ([] @ ?w1 @ ('' '' @ ?w2 @ ''\<newline>'')) = Some (?w1, '' '' @ ?w2 @ ''\<newline>'')"
    by (rule scan_s_word[OF w1]) (simp_all add: stops_simps char_facts)
  have s2: "scan_s 63 ('' '' @ ?w2 @ ''\<newline>'') = Some (?w2, ''\<newline>'')"
    by (rule scan_s_word[OF w2]) (simp_all add: stops_simps char_facts)
  have d1: "scan_d ?w1 = Some (?a, '':'' @ show_int ?b)"
    by (rule scan_d_show_int) (simp add: stops_simps char_facts)
  have d2: "scan_d (show_int ?b) = Some (?b, [])"
    using scan_d_show_int[of "[]" ?b] by (simp add: stops_simps)
  have d3: "scan_d ?w2 = Some (?c, '':'' @ show_int ?d @ '':'' @ show_int ?e)"
    by (rule scan_d_show_int) (simp add: stops_simps char_facts)
  have d4: "scan_d (show_int ?d @ '':'' @ show_int ?e) = Some (?d, '':'' @ show_int ?e)"
    by (rule scan_d_show_int) (simp add: stops_simps char_facts)
  have d5: "scan_d (show_int ?e) = Some (?e, [])"
    using scan_d_show_int[of "[]" ?e] by (simp add: stops_simps)
  have l: "scan_lit CHR '':'' ('':'' @ r) = Some r" for r
    by (simp add: scan_lit_def)
  show ?thesis
    unfolding parse_header_def line
    by (simp only: s1 s2 d1 d2 d3 d4 d5 l Option.bind.bind_lunit prod.case)
qed

text \<open>The flag letters.\<close>

lemma make_flags_from_set: "set (make_flags_from i cs fl) \<subseteq> set cs"
  by (induction cs arbitrary: i) auto

lemma make_flags_from_length: "length (make_flags_from i cs fl) \<le> length cs"
  by (induction cs arbitrary: i) (simp_all add: le_SucI)

lemma make_flags_props:
  "list_all plain (make_flags fl)" "length (make_flags fl) \<le> 5" "CHR ''X'' \<notin> set (make_flags fl)"
proof -
  have sub: "set (make_flags fl) \<subseteq> set Flags" and len: "length (make_flags fl) \<le> length Flags"
    using make_flags_from_set[of 0 Flags fl] make_flags_from_length[of 0 Flags fl]
    by (simp_all add: make_flags_def)
  have "list_all plain Flags" by (simp add: Flags_def plain_def isspace_def)
  with sub show "list_all plain (make_flags fl)" by (auto simp add: list_all_iff)
  from len show "length (make_flags fl) \<le> 5" by (simp add: Flags_def)
  from sub show "CHR ''X'' \<notin> set (make_flags fl)" by (auto simp add: Flags_def)
qed

lemma parse_make_flags_all:
  "list_all (\<lambda>n. parse_flags (make_flags (of_nat n)) = of_nat n) [0..<32]"
  by code_simp

lemma parse_make_flags:
  assumes "fl < 32"
  shows "parse_flags (make_flags fl) = fl"
proof -
  from assms have "unat fl < 32" by (simp add: word_less_nat_alt)
  then have "unat fl \<in> set [0..<32]" by simp
  with parse_make_flags_all have "parse_flags (make_flags (of_nat (unat fl))) = of_nat (unat fl)"
    unfolding list_all_iff by blast
  then show ?thesis by simp
qed

lemma parse_entry_line:
  "parse_entry (entry_line srec)
   = Some (sel (uid srec) M, sel (uid srec) S,
           (if tst (status srec) S_EXPIRED then ''X'' else []) @ make_flags (flags srec))"
proof -
  let ?m = "sel (uid srec) M" and ?s = "sel (uid srec) S"
  let ?w = "(if tst (status srec) S_EXPIRED then ''X'' else []) @ make_flags (flags srec)"
  have line: "entry_line srec = show_int ?m @ ('' '' @ show_int ?s @ ('' '' @ ?w @ ''\<newline>''))"
    by (simp add: entry_line_def)
  have d1: "scan_d (show_int ?m @ ('' '' @ show_int ?s @ ('' '' @ ?w @ ''\<newline>'')))
            = Some (?m, '' '' @ show_int ?s @ ('' '' @ ?w @ ''\<newline>''))"
    by (rule scan_d_show_int) (simp add: stops_simps char_facts)
  have sk: "skip_ws ('' '' @ r) = skip_ws r" for r
    by (simp add: skip_ws_def char_facts)
  have "scan_d ('' '' @ r) = scan_d r" for r
    unfolding scan_d_def sk ..
  then have d2: "scan_d ('' '' @ show_int ?s @ ('' '' @ ?w @ ''\<newline>'')) = Some (?s, '' '' @ ?w @ ''\<newline>'')"
    using scan_d_show_int[of "'' '' @ ?w @ ''\<newline>''" ?s] by (simp add: stops_simps char_facts)
  have s3: "(case scan_s 15 ('' '' @ ?w @ ''\<newline>'') of None \<Rightarrow> [] | Some (fbuf, _) \<Rightarrow> fbuf) = ?w"
  proof (cases "?w = []")
    case True
    have "scan_s 15 ('' '' @ ''\<newline>'') = None"
      by (rule scan_s_spaces) (simp add: char_facts)
    with True show ?thesis by simp
  next
    case False
    have p: "list_all plain ?w" using make_flags_props(1)[of "flags srec"] by (simp add: char_facts)
    have l: "length ?w \<le> 15" using make_flags_props(2)[of "flags srec"] by simp
    have "scan_s 15 ('' '' @ ?w @ ''\<newline>'') = Some (?w, ''\<newline>'')"
      by (rule scan_s_word[OF False p l]) (simp_all add: stops_simps char_facts)
    then show ?thesis by simp
  qed
  show ?thesis
    unfolding parse_entry_def line
    by (simp only: d1 d2 s3 Option.bind.bind_lunit prod.case)
qed

lemma entry_srec_reread:
  assumes "flags srec < 32"
  shows "entry_srec junk (sel (uid srec) M) (sel (uid srec) S)
           ((if tst (status srec) S_EXPIRED then ''X'' else []) @ make_flags (flags srec))
         = reread junk srec"
proof (cases "tst (status srec) S_EXPIRED")
  case True
  then show ?thesis
    by (simp add: entry_srec_def reread_def parse_make_flags[OF assms])
next
  case False
  show ?thesis
  proof (cases "make_flags (flags srec)")
    case Nil
    with parse_make_flags[OF assms] have "parse_flags [] = flags srec" by simp
    with False Nil show ?thesis by (simp add: entry_srec_def reread_def)
  next
    case (Cons c r)
    with parse_make_flags[OF assms] have pf: "parse_flags (c # r) = flags srec" by simp
    from Cons make_flags_props(3)[of "flags srec"] have "c \<noteq> CHR ''X''" by auto
    with False Cons pf show ?thesis by (simp add: entry_srec_def reread_def)
  qed
qed

text \<open>Reading lines back with \<^verbatim>\<open>fgets\<close>.\<close>

lemma fgets_chunks_line:
  assumes "CHR ''\<newline>'' \<notin> set body" and "length body < room"
  shows "fgets_chunks room cur (body @ CHR ''\<newline>'' # rest) = (cur @ body @ ''\<newline>'') # fgets_chunks 127 [] rest"
  using assms
proof (induction body arbitrary: room cur)
  case Nil
  then show ?case by simp
next
  case (Cons c body)
  from Cons.prems have r: "\<not> room \<le> 1" "c \<noteq> CHR ''\<newline>''" "length body < room - 1" by auto
  from Cons.IH[of "room - 1" "cur @ [c]"] Cons.prems r show ?case by simp
qed

lemma fgets_chunks_lines:
  "list_all good_line ls \<Longrightarrow> fgets_chunks 127 [] (concat ls) = ls"
proof (induction ls)
  case Nil
  show ?case by simp
next
  case (Cons l ls)
  then have g: "good_line l" and rest: "list_all good_line ls" by simp_all
  from g have l: "l = butlast l @ [CHR ''\<newline>'']"
    by (metis append_butlast_last_id good_line_def)
  from g have n: "CHR ''\<newline>'' \<notin> set (butlast l)" and len: "length (butlast l) < 127"
    by (auto simp add: good_line_def)
  have "fgets_chunks 127 [] (butlast l @ CHR ''\<newline>'' # concat ls)
        = ([] @ butlast l @ ''\<newline>'') # fgets_chunks 127 [] (concat ls)"
    by (rule fgets_chunks_line[OF n len])
  with l Cons.IH[OF rest] show ?case
    by (metis append.assoc append_Cons append_Nil concat.simps(2))
qed

lemma good_line_ok: "good_line l \<Longrightarrow> line_ok l \<and> cstr l = l"
proof -
  assume g: "good_line l"
  then have "cstr l = l" by (auto simp add: good_line_def cstr_def takeWhile_eq_all_conv)
  with g show ?thesis by (simp add: line_ok_def good_line_def)
qed

lemma plain_body: "list_all plain w \<Longrightarrow> CHR ''\<newline>'' \<notin> set w \<and> CHR 0x00 \<notin> set w"
  by (auto simp add: list_all_iff plain_def isspace_def)

lemma good_lineI:
  assumes "CHR ''\<newline>'' \<notin> set body" and "CHR 0x00 \<notin> set body" and "length body < 127"
  shows "good_line (body @ ''\<newline>'')"
  using assms by (simp add: good_line_def)

lemma header_line_good:
  assumes "is_int (sel (uidval sv) M)" "is_int (sel (maxuid sv) M)" "is_int (sel (uidval sv) S)"
    "is_int (smaxxuid sv)" "is_int (sel (maxuid sv) S)"
  shows "good_line (header_line sv)"
proof -
  let ?body = "show_int (sel (uidval sv) M) @ '':'' @ show_int (sel (maxuid sv) M) @ '' '' @
     show_int (sel (uidval sv) S) @ '':'' @ show_int (smaxxuid sv) @ '':'' @ show_int (sel (maxuid sv) S)"
  have len: "length (show_int (sel (uidval sv) M)) \<le> 11" "length (show_int (sel (maxuid sv) M)) \<le> 11"
    "length (show_int (sel (uidval sv) S)) \<le> 11" "length (show_int (smaxxuid sv)) \<le> 11"
    "length (show_int (sel (maxuid sv) S)) \<le> 11"
    using assms by (simp_all add: is_int_def show_int_length)
  have eq: "header_line sv = ?body @ ''\<newline>''" by (simp add: header_line_def)
  have "CHR ''\<newline>'' \<notin> set ?body" "CHR 0x00 \<notin> set ?body"
    using plain_body[OF show_int_plain] by simp_all
  moreover have "length ?body < 127" using len by simp
  ultimately show ?thesis unfolding eq by (rule good_lineI)
qed

lemma entry_line_good:
  assumes "is_int (sel (uid srec) M)" "is_int (sel (uid srec) S)"
  shows "good_line (entry_line srec)"
proof -
  let ?body = "show_int (sel (uid srec) M) @ '' '' @ show_int (sel (uid srec) S) @ '' '' @
     (if tst (status srec) S_EXPIRED then ''X'' else []) @ make_flags (flags srec)"
  have len: "length (show_int (sel (uid srec) M)) \<le> 11" "length (show_int (sel (uid srec) S)) \<le> 11"
    using assms by (simp_all add: is_int_def show_int_length)
  have eq: "entry_line srec = ?body @ ''\<newline>''" by (simp add: entry_line_def)
  have "CHR ''\<newline>'' \<notin> set ?body" "CHR 0x00 \<notin> set ?body"
    using plain_body[OF show_int_plain] plain_body[OF make_flags_props(1)] by simp_all
  moreover have "length ?body < 127" using len make_flags_props(2)[of "flags srec"] by simp
  ultimately show ?thesis unfolding eq by (rule good_lineI)
qed

text \<open>The entries, read back.\<close>

lemma read_entries_lines:
  assumes "list_all (\<lambda>srec. is_int (sel (uid srec) M) \<and> is_int (sel (uid srec) S) \<and> flags srec < 32) rs"
  shows "read_entries junk line (map entry_line rs) recs = Inr (recs @ map (reread junk) rs)"
  using assms
proof (induction rs arbitrary: line recs)
  case Nil
  show ?case by simp
next
  case (Cons r rs)
  then have r: "is_int (sel (uid r) M)" "is_int (sel (uid r) S)" "flags r < 32"
    and rest: "list_all (\<lambda>srec. is_int (sel (uid srec) M) \<and> is_int (sel (uid srec) S) \<and> flags srec < 32) rs"
    by simp_all
  from good_line_ok[OF entry_line_good[OF r(1,2)]]
  have ok: "line_ok (entry_line r)" "cstr (entry_line r) = entry_line r" by simp_all
  show ?case
    using ok Cons.IH[OF rest] by (simp add: parse_entry_line entry_srec_reread[OF r(3)])
qed

lemma sel_pair: "(sel p M, sel p S) = p"
  by (cases p) simp

lemma reread_fields:
  "uid (reread junk srec) = uid srec" "flags (reread junk srec) = flags srec"
  "tst (status (reread junk srec)) S_EXPIRED = tst (status srec) S_EXPIRED"
  by (simp_all add: reread_def sel_pair tst_def S_EXPIRE_def S_EXPIRED_def)

text \<open>
  Claim C2. Writing the sync state and reading it back gives the same header values and
  the same records in the same order. \<open>svars\<close> is the context at the commit, with nothing
  written to the new state yet, header values and UIDs that are values of a C \<^verbatim>\<open>int\<close>,
  and flags within the five flag bits; \<open>write_state\<close> prints the header and the live
  records, the files are closed and the new state is renamed. \<open>read_state\<close> in a fresh
  context of the next run, with those files, gives \<open>uidval\<close>, \<open>maxuid\<close> and \<open>smaxxuid\<close> as
  they were and one record for each live record, in order, with the same UIDs, the same
  flags and the same \<^verbatim>\<open>S_EXPIRED\<close> bit.
\<close>

theorem state_file_round_trip:
  assumes "is_int (sel (uidval svars) M)" and "is_int (sel (maxuid svars) M)"
    and "is_int (sel (uidval svars) S)" and "is_int (smaxxuid svars)" and "is_int (sel (maxuid svars) S)"
    and "list_all (\<lambda>srec. is_int (sel (uid srec) M) \<and> is_int (sel (uid srec) S) \<and> flags srec < 32)
           (filter (\<lambda>srec. \<not> tst (status srec) S_DEAD) (srecs svars))"
    and "nfp svars = []" and "\<not> keep_journal e" and "srecs next_run = []"
    and "fs next_run = fs (commit_files e (Fclose_jfp (Fclose_nfp (write_state svars))))"
  shows "read_state junk next_run
           = Inr (next_run\<lparr>uidval := uidval svars, maxuid := maxuid svars, smaxxuid := smaxxuid svars,
                           srecs := map (reread junk) (filter (\<lambda>srec. \<not> tst (status srec) S_DEAD) (srecs svars))\<rparr>)
       \<and> map uid (map (reread junk) (filter (\<lambda>srec. \<not> tst (status srec) S_DEAD) (srecs svars)))
           = map uid (filter (\<lambda>srec. \<not> tst (status srec) S_DEAD) (srecs svars))
       \<and> map flags (map (reread junk) (filter (\<lambda>srec. \<not> tst (status srec) S_DEAD) (srecs svars)))
           = map flags (filter (\<lambda>srec. \<not> tst (status srec) S_DEAD) (srecs svars))
       \<and> map (\<lambda>srec. tst (status srec) S_EXPIRED)
             (map (reread junk) (filter (\<lambda>srec. \<not> tst (status srec) S_DEAD) (srecs svars)))
           = map (\<lambda>srec. tst (status srec) S_EXPIRED) (filter (\<lambda>srec. \<not> tst (status srec) S_DEAD) (srecs svars))"
proof -
  let ?live = "filter (\<lambda>srec. \<not> tst (status srec) S_DEAD) (srecs svars)"
  let ?lines = "header_line svars # map entry_line ?live"
  have dfc: "dfile (fs next_run) = Content (concat ?lines)"
    using assms(7,8,10)
    by (simp add: commit_files_def Fclose_jfp_def Fclose_nfp_def write_state_def)
  have gh: "good_line (header_line svars)"
    by (rule header_line_good[OF assms(1-5)])
  have ge: "list_all good_line (map entry_line ?live)"
    using assms(6) unfolding list_all_iff by (auto intro: entry_line_good)
  have chunks: "fgets_all (concat ?lines) = ?lines"
    unfolding fgets_all_def by (rule fgets_chunks_lines) (use gh ge in simp)
  from good_line_ok[OF gh] have ok: "line_ok (header_line svars)" "cstr (header_line svars) = header_line svars"
    by simp_all
  have ents: "read_entries junk 1 (map entry_line ?live) [] = Inr ([] @ map (reread junk) ?live)"
    by (rule read_entries_lines[OF assms(6)])
  have "read_state junk next_run
           = Inr (next_run\<lparr>uidval := uidval svars, maxuid := maxuid svars, smaxxuid := smaxxuid svars,
                           srecs := map (reread junk) ?live\<rparr>)"
    unfolding read_state_def dfc diskfile.case chunks list.case
    using ok ents assms(9) by (simp add: parse_header_line[OF assms(1-5)] sel_pair)
  then show ?thesis
    by (simp add: reread_fields comp_def)
qed

theorem state_file_round_trip_witness:
  "list_all (\<lambda>srec. is_int (sel (uid srec) M) \<and> is_int (sel (uid srec) S) \<and> flags srec < 32)
           (filter (\<lambda>srec. \<not> tst (status srec) S_DEAD) (srecs ex_commit))
   \<and> fs (commit_files ex_env (Fclose_jfp (Fclose_nfp (write_state ex_commit))))
       = \<lparr>dfile = Content ''1:8 1:3:4\<newline>5 3 XST\<newline>7 -1 \<newline>8 4 DFR\<newline>'', jfile = Absent, nfile = Absent,
          lfile = False\<rparr>
   \<and> read_state (ex_rec 0 0 0 0 [])
        (ex_new\<lparr>fs := fs (commit_files ex_env (Fclose_jfp (Fclose_nfp (write_state ex_commit))))\<rparr>)
       = Inr (ex_new\<lparr>fs := fs (commit_files ex_env (Fclose_jfp (Fclose_nfp (write_state ex_commit)))),
                     uidval := (1, 1), maxuid := (8, 4), smaxxuid := 3,
                     srecs := [ex_rec 5 3 (S_EXPIRE OR S_EXPIRED) (F_SEEN OR F_DELETED) [],
                               ex_rec 7 (- 1) 0 0 [],
                               ex_rec 8 4 0 (F_DRAFT OR F_FLAGGED OR F_ANSWERED) []]\<rparr>)"
proof -
  let ?n = "ex_new\<lparr>fs := fs (commit_files ex_env (Fclose_jfp (Fclose_nfp (write_state ex_commit))))\<rparr>"
  have i: "is_int (sel (uidval ex_commit) M)" "is_int (sel (maxuid ex_commit) M)"
    "is_int (sel (uidval ex_commit) S)" "is_int (smaxxuid ex_commit)" "is_int (sel (maxuid ex_commit) S)"
    by (simp_all add: ex_commit_def is_int_def)
  have l: "list_all (\<lambda>srec. is_int (sel (uid srec) M) \<and> is_int (sel (uid srec) S) \<and> flags srec < 32)
           (filter (\<lambda>srec. \<not> tst (status srec) S_DEAD) (srecs ex_commit))"
    by (simp add: ex_commit_def ex_rec_def is_int_def tst_def S_DEAD_def S_DONE_def S_EXPIRE_def
        S_EXPIRED_def F_SEEN_def F_DELETED_def F_DRAFT_def F_FLAGGED_def F_ANSWERED_def)
  have n: "nfp ex_commit = []" "\<not> keep_journal ex_env" "srecs ?n = []" "fs ?n = fs (commit_files ex_env (Fclose_jfp (Fclose_nfp (write_state ex_commit))))"
    by (simp_all add: ex_commit_def ex_env_def ex_new_def sync_boxes_init_def)
  have f: "fs (commit_files ex_env (Fclose_jfp (Fclose_nfp (write_state ex_commit))))
       = \<lparr>dfile = Content ''1:8 1:3:4\<newline>5 3 XST\<newline>7 -1 \<newline>8 4 DFR\<newline>'', jfile = Absent, nfile = Absent,
          lfile = False\<rparr>"
    by code_simp
  have r: "map (reread (ex_rec 0 0 0 0 [])) (filter (\<lambda>srec. \<not> tst (status srec) S_DEAD) (srecs ex_commit))
       = [ex_rec 5 3 (S_EXPIRE OR S_EXPIRED) (F_SEEN OR F_DELETED) [],
          ex_rec 7 (- 1) 0 0 [],
          ex_rec 8 4 0 (F_DRAFT OR F_FLAGGED OR F_ANSWERED) []]"
    by code_simp
  have u: "uidval ex_commit = (1, 1)" "maxuid ex_commit = (8, 4)" "smaxxuid ex_commit = 3"
    by (simp_all add: ex_commit_def)
  from state_file_round_trip[OF i l n, of "ex_rec 0 0 0 0 []"]
  have "read_state (ex_rec 0 0 0 0 []) ?n
       = Inr (?n\<lparr>uidval := uidval ex_commit, maxuid := maxuid ex_commit, smaxxuid := smaxxuid ex_commit,
                  srecs := map (reread (ex_rec 0 0 0 0 []))
                             (filter (\<lambda>srec. \<not> tst (status srec) S_DEAD) (srecs ex_commit))\<rparr>)"
    by blast
  then show ?thesis
    unfolding r u using l f by simp
qed

lemma E_X_disjoint: "S_EXPIRE AND S_EXPIRED = 0" "S_EXPIRED AND NOT S_EXPIRE = S_EXPIRED"
  by (simp_all add: S_EXPIRE_def S_EXPIRED_def)

lemma tst_X_setE: "tst (st OR S_EXPIRE) S_EXPIRED = tst st S_EXPIRED"
  by (simp add: tst_or_disjoint E_X_disjoint)

lemma tst_X_clrE: "tst (st AND NOT S_EXPIRE) S_EXPIRED = tst st S_EXPIRED"
proof -
  have "(st AND NOT S_EXPIRE) AND S_EXPIRED = st AND (S_EXPIRED AND NOT S_EXPIRE)"
    by (simp add: ac_simps)
  then show ?thesis by (simp add: tst_def E_X_disjoint)
qed

lemma E_absorb:
  "(st OR S_EXPIRE) OR S_EXPIRE = st OR S_EXPIRE"
  "(st AND NOT S_EXPIRE) OR S_EXPIRE = st OR S_EXPIRE"
  "(st OR S_EXPIRE) AND NOT S_EXPIRE = st AND NOT S_EXPIRE"
  "(st AND NOT S_EXPIRE) AND NOT S_EXPIRE = st AND NOT S_EXPIRE"
  by (auto simp add: bit_eq_iff bit_simps)

text \<open>An update of the \<^verbatim>\<open>S_EXPIRE\<close> bit forgets every earlier update of that bit.\<close>

lemma status_absorb:
  assumes "g = setE \<or> g = clrE \<or> g = copyXE"
    and "f = id \<or> f = setE \<or> f = clrE \<or> f = copyXE"
  shows "g (f st) = g st"
  using assms
  by (auto simp add: setE_def clrE_def copyXE_def tst_X_setE tst_X_clrE E_absorb)

lemma st_rel_step:
  assumes "g = setE \<or> g = clrE \<or> g = copyXE" and "st_rel x0 y0 x y"
  shows "st_rel x0 y0 (g x) (g y)"
proof -
  have a: "g (setE s) = g s" "g (clrE s) = g s" "g (copyXE s) = g s" for s
    using status_absorb[OF assms(1), of setE s] status_absorb[OF assms(1), of clrE s]
      status_absorb[OF assms(1), of copyXE s] by simp_all
  from assms(2) consider "x = y" | "x = x0 \<and> y = y0" | "x = setE x0 \<and> y = setE y0"
    | "x = clrE x0 \<and> y = clrE y0" | "x = copyXE x0 \<and> y = copyXE y0"
    unfolding st_rel_def by blast
  then have "g x = g y \<or> (g x = g x0 \<and> g y = g y0)"
    by cases (simp_all add: a)
  with assms(1) show ?thesis unfolding st_rel_def by blast
qed

lemma st_rel_final:
  assumes "st_rel x0 x x y"
  shows "y = x"
proof -
  have i: "setE (setE s) = setE s" "clrE (clrE s) = clrE s" "copyXE (copyXE s) = copyXE s" for s
    using status_absorb[of setE setE s] status_absorb[of clrE clrE s] status_absorb[of copyXE copyXE s]
    by simp_all
  from assms show ?thesis unfolding st_rel_def by (metis i)
qed

lemma tuid_rel_final: "tuid_rel x0 x x y \<Longrightarrow> y = x"
proof -
  have "clear_tuid (clear_tuid s) = clear_tuid s" for s by (cases s) simp_all
  then show "tuid_rel x0 x x y \<Longrightarrow> y = x" unfolding tuid_rel_def by metis
qed

lemma cell_rel_final: "cell_rel x0 x x y \<Longrightarrow> y = x"
  unfolding cell_rel_def by metis

lemma find_uids_keys:
  "map uid a = map uid b \<Longrightarrow> find_uids t1 t2 a k = find_uids t1 t2 b k"
proof (induction a arbitrary: b k)
  case Nil
  then show ?case by simp
next
  case (Cons r a)
  then obtain r' b' where b: "b = r' # b'" "uid r' = uid r" "map uid a = map uid b'"
    by (cases b) auto
  with Cons.IH[of b' "Suc k"] show ?case by simp
qed

lemma find_srec_keys:
  assumes "map uid a = map uid b"
  shows "find_srec t1 t2 a cur = find_srec t1 t2 b cur"
proof -
  have "drop c (map uid a) = drop c (map uid b)" "take c (map uid a) = take c (map uid b)" for c
    using assms by simp_all
  then have "map uid (drop c a) = map uid (drop c b)" "map uid (take c a) = map uid (take c b)" for c
    unfolding drop_map take_map by blast+
  then have d: "find_uids t1 t2 (drop c a) k = find_uids t1 t2 (drop c b) k"
    "find_uids t1 t2 (take c a) k = find_uids t1 t2 (take c b) k" for c k
    by (blast intro: find_uids_keys)+
  show ?thesis
    unfolding find_srec_def d find_uids_keys[OF assms, of t1 t2 0] by (rule refl)
qed

lemma untouched_uid: "untouched a = untouched b \<Longrightarrow> uid a = uid b"
  unfolding untouched_def by (cases a, cases b) simp

lemma replay_rel_keys:
  assumes "map uid (srecs x0) = map uid (srecs y0)" and "replay_rel x0 y0 x y"
  shows "map uid (srecs x) = map uid (srecs y)"
proof (rule nth_equalityI)
  from assms(2) show "length (map uid (srecs x)) = length (map uid (srecs y))"
    by (simp add: replay_rel_def)
next
  fix i assume "i < length (map uid (srecs x))"
  with assms(2) have i: "i < length (srecs x0)" "i < length (srecs x)" "i < length (srecs y)"
    by (simp_all add: replay_rel_def)
  with assms(2) have "rec_rel (srecs x0 ! i) (srecs y0 ! i) (srecs x ! i) (srecs y ! i)"
    by (simp add: replay_rel_def)
  then have "uid (srecs x ! i) = uid (srecs x0 ! i)" "uid (srecs y ! i) = uid (srecs y0 ! i)"
    unfolding rec_rel_def by (blast intro: untouched_uid)+
  moreover from assms(1) i have "uid (srecs x0 ! i) = uid (srecs y0 ! i)"
    using nth_map[of i "srecs x0" uid] nth_map[of i "srecs y0" uid] length_map[of uid "srecs y0"]
      length_map[of uid "srecs x0"] by simp
  ultimately show "map uid (srecs x) ! i = map uid (srecs y) ! i"
    using i by simp
qed

lemma jline_srec_safe:
  assumes "safe_jline jl"
  shows "(\<forall>srec smx. jline_srec jl srec smx = None)
       \<or> (\<exists>gf gt gs. flags_op gf \<and> tuid_op gt \<and> status_op gs
            \<and> (\<forall>srec smx. jline_srec jl srec smx = Some (rec_op gf gt gs srec, smx)))"
proof (cases jl)
  case (J1 c t1)
  then show ?thesis by (simp add: jline_srec_def)
next
  case (JT t1 t2 tu)
  have "flags_op id \<and> tuid_op (\<lambda>_. tu) \<and> status_op id
      \<and> (\<forall>srec smx. jline_srec jl srec smx = Some (rec_op id (\<lambda>_. tu) id srec, smx))"
    by (auto simp add: JT jline_srec_def rec_op_def flags_op_def tuid_op_def status_op_def)
  then show ?thesis by blast
next
  case (J2 c t1 t2)
  with assms consider "c = CHR ''|''" | "c = CHR ''-''" | "c = CHR ''&''" | "c = CHR 0x5C"
    by auto
  then show ?thesis
  proof cases
    case 1
    then show ?thesis by (simp add: J2 jline_srec_def)
  next
    case 2
    have "flags_op id \<and> tuid_op id \<and> status_op (\<lambda>_. S_DEAD)
        \<and> (\<forall>srec smx. jline_srec jl srec smx = Some (rec_op id id (\<lambda>_. S_DEAD) srec, smx))"
      by (auto simp add: J2 2 jline_srec_def rec_op_def flags_op_def tuid_op_def status_op_def)
    then show ?thesis by blast
  next
    case 3
    have "flags_op (\<lambda>_. 0) \<and> tuid_op clear_tuid \<and> status_op id
        \<and> (\<forall>srec smx. jline_srec jl srec smx = Some (rec_op (\<lambda>_. 0) clear_tuid id srec, smx))"
      by (auto simp add: J2 3 jline_srec_def rec_op_def flags_op_def tuid_op_def status_op_def)
    then show ?thesis by blast
  next
    case 4
    have "flags_op id \<and> tuid_op id \<and> status_op copyXE
        \<and> (\<forall>srec smx. jline_srec jl srec smx = Some (rec_op id id copyXE srec, smx))"
      by (auto simp add: J2 4 jline_srec_def rec_op_def flags_op_def tuid_op_def status_op_def
          copyXE_def)
    then show ?thesis by blast
  qed
next
  case (J3 c t1 t2 t3)
  with assms consider "c = CHR ''*''" | "c = CHR ''~''" "t3 \<noteq> 0" | "c = CHR ''~''" "t3 = 0"
    by auto
  then show ?thesis
  proof cases
    case 1
    have "flags_op (\<lambda>_. word_of_int t3) \<and> tuid_op id \<and> status_op id
        \<and> (\<forall>srec smx. jline_srec jl srec smx = Some (rec_op (\<lambda>_. word_of_int t3) id id srec, smx))"
      by (auto simp add: J3 1 jline_srec_def rec_op_def flags_op_def tuid_op_def status_op_def)
    then show ?thesis by blast
  next
    case 2
    have "flags_op id \<and> tuid_op id \<and> status_op setE
        \<and> (\<forall>srec smx. jline_srec jl srec smx = Some (rec_op id id setE srec, smx))"
      by (auto simp add: J3 2 jline_srec_def rec_op_def flags_op_def tuid_op_def status_op_def
          setE_def)
    then show ?thesis by blast
  next
    case 3
    have "flags_op id \<and> tuid_op id \<and> status_op clrE
        \<and> (\<forall>srec smx. jline_srec jl srec smx = Some (rec_op id id clrE srec, smx))"
      by (auto simp add: J3 3 jline_srec_def rec_op_def flags_op_def tuid_op_def status_op_def
          clrE_def)
    then show ?thesis by blast
  qed
qed

lemma cell_rel_op:
  "flags_op g \<Longrightarrow> cell_rel x0 y0 x y \<Longrightarrow> cell_rel x0 y0 (g x) (g y)"
  unfolding flags_op_def cell_rel_def by auto

lemma tuid_rel_op:
  assumes "tuid_op g" and "tuid_rel x0 y0 x y"
  shows "tuid_rel x0 y0 (g x) (g y)"
proof -
  have c: "clear_tuid (clear_tuid s) = clear_tuid s" for s by (cases s) simp_all
  from assms(1) consider "g = id" | "g = clear_tuid" | v where "g = (\<lambda>_. v)"
    unfolding tuid_op_def by blast
  then show ?thesis
  proof cases
    case 1
    with assms(2) show ?thesis by simp
  next
    case 2
    with assms(2) show ?thesis unfolding tuid_rel_def by (auto simp add: c)
  next
    case 3
    then show ?thesis unfolding tuid_rel_def by simp
  qed
qed

lemma st_rel_op:
  assumes "status_op g" and "st_rel x0 y0 x y"
  shows "st_rel x0 y0 (g x) (g y)"
proof -
  from assms(1) consider "g = id" | "g = setE \<or> g = clrE \<or> g = copyXE" | v where "g = (\<lambda>_. v)"
    unfolding status_op_def by blast
  then show ?thesis
  proof cases
    case 1
    with assms(2) show ?thesis by simp
  next
    case 2
    from st_rel_step[OF this assms(2)] show ?thesis .
  next
    case 3
    then show ?thesis unfolding st_rel_def by simp
  qed
qed

lemma rec_rel_op:
  assumes "flags_op gf" "tuid_op gt" "status_op gs" and "rec_rel x0 y0 x y"
  shows "rec_rel x0 y0 (rec_op gf gt gs x) (rec_op gf gt gs y)"
proof -
  have u: "untouched (rec_op gf gt gs r) = untouched r" for r
    by (simp add: untouched_def rec_op_def)
  have f: "flags (rec_op gf gt gs r) = gf (flags r)" "tuid (rec_op gf gt gs r) = gt (tuid r)"
    "status (rec_op gf gt gs r) = gs (status r)" for r
    by (simp_all add: rec_op_def)
  from assms(4) have r: "untouched x = untouched x0" "untouched y = untouched y0"
    "cell_rel (flags x0) (flags y0) (flags x) (flags y)"
    "tuid_rel (tuid x0) (tuid y0) (tuid x) (tuid y)"
    "st_rel (status x0) (status y0) (status x) (status y)"
    by (simp_all add: rec_rel_def)
  from cell_rel_op[OF assms(1) r(3)] tuid_rel_op[OF assms(2) r(4)] st_rel_op[OF assms(3) r(5)]
    r(1,2)
  show ?thesis unfolding rec_rel_def u f by simp
qed

lemma fst_snd_upd:
  "fst (upd p M v) = v" "snd (upd p M v) = snd p" "fst (upd p S v) = fst p" "snd (upd p S v) = v"
  by (cases p; simp)+

lemma cell_rel_same: "cell_rel a b v v"
  by (simp add: cell_rel_def)

lemma replay_rel_J1:
  assumes "replay_rel x0 y0 x y"
    and "replay_jline junk line (J1 ch t1) (x, c) = Inr (x', c')"
  shows "\<exists>y'. replay_jline junk line (J1 ch t1) (y, c) = Inr (y', c') \<and> replay_rel x0 y0 x' y'"
  using assms
  by (auto simp add: replay_jline_def replay_rel_def unloaded_def fst_snd_upd cell_rel_same)

lemma replay_rel_uidval:
  assumes "replay_rel x0 y0 x y"
    and "replay_jline junk line (J2 CHR ''|'' t1 t2) (x, c) = Inr (x', c')"
  shows "\<exists>y'. replay_jline junk line (J2 CHR ''|'' t1 t2) (y, c) = Inr (y', c') \<and> replay_rel x0 y0 x' y'"
  using assms
  by (auto simp add: replay_jline_def replay_rel_def unloaded_def cell_rel_same)

lemma replay_jline_rec_entry:
  assumes "rec_entry jl"
  shows "replay_jline junk line jl (sv, c) =
     (case find_srec (fst (jline_uids jl)) (snd (jline_uids jl)) (srecs sv) c of
        None \<Rightarrow> Inl (Nonexistent_entry line)
      | Some i \<Rightarrow>
          (case jline_srec jl (srecs sv ! i) (smaxxuid sv) of
             None \<Rightarrow> Inl (Unrecognized_journal_entry line)
           | Some (srec, smx) \<Rightarrow> Inr (sv\<lparr>srecs := (srecs sv)[i := srec], smaxxuid := smx\<rparr>, Some i)))"
  using assms by (cases jl) (auto simp add: replay_jline_def)

lemma replay_rel_update:
  assumes "flags_op gf" "tuid_op gt" "status_op gs" and rel: "replay_rel x0 y0 x y"
    and i: "i < length (srecs x0)"
  shows "replay_rel x0 y0 (x\<lparr>srecs := (srecs x)[i := rec_op gf gt gs (srecs x ! i)], smaxxuid := smaxxuid x\<rparr>)
           (y\<lparr>srecs := (srecs y)[i := rec_op gf gt gs (srecs y ! i)], smaxxuid := smaxxuid y\<rparr>)"
proof -
  from rel have len: "length (srecs x) = length (srecs x0)" "length (srecs y) = length (srecs x0)"
    and recs: "\<And>j. j < length (srecs x0) \<Longrightarrow> rec_rel (srecs x0 ! j) (srecs y0 ! j) (srecs x ! j) (srecs y ! j)"
    by (simp_all add: replay_rel_def)
  have "rec_rel (srecs x0 ! j) (srecs y0 ! j)
          ((srecs x)[i := rec_op gf gt gs (srecs x ! i)] ! j)
          ((srecs y)[i := rec_op gf gt gs (srecs y ! i)] ! j)" if j: "j < length (srecs x0)" for j
  proof (cases "j = i")
    case True
    with rec_rel_op[OF assms(1-3) recs[OF i]] i len show ?thesis by simp
  next
    case False
    with recs[OF j] show ?thesis by simp
  qed
  with rel show ?thesis by (simp add: replay_rel_def unloaded_def)
qed

lemma replay_jline_rel:
  assumes keys: "map uid (srecs x0) = map uid (srecs y0)"
    and safe: "safe_jline jl" and rel: "replay_rel x0 y0 x y"
    and run: "replay_jline junk line jl (x, c) = Inr (x', c')"
  shows "\<exists>y'. replay_jline junk line jl (y, c) = Inr (y', c') \<and> replay_rel x0 y0 x' y'"
proof -
  from safe consider ch t1 where "jl = J1 ch t1" | t1 t2 where "jl = J2 CHR ''|'' t1 t2"
    | "rec_entry jl"
    by (cases jl) auto
  then show ?thesis
  proof cases
    case 1
    with replay_rel_J1[OF rel] run show ?thesis by simp
  next
    case 2
    with replay_rel_uidval[OF rel] run show ?thesis by simp
  next
    case 3
    define t1 where "t1 = fst (jline_uids jl)"
    define t2 where "t2 = snd (jline_uids jl)"
    note rx = replay_jline_rec_entry[OF 3, of junk line x c, folded t1_def t2_def]
    note ry = replay_jline_rec_entry[OF 3, of junk line y c, folded t1_def t2_def]
    from run rx obtain i r smx where
      f: "find_srec t1 t2 (srecs x) c = Some i"
      and j: "jline_srec jl (srecs x ! i) (smaxxuid x) = Some (r, smx)"
      and x': "x' = x\<lparr>srecs := (srecs x)[i := r], smaxxuid := smx\<rparr>" and c': "c' = Some i"
      by (auto split: option.splits)
    from jline_srec_safe[OF safe] j obtain gf gt gs where
      ops: "flags_op gf" "tuid_op gt" "status_op gs"
      and js: "\<And>srec smx. jline_srec jl srec smx = Some (rec_op gf gt gs srec, smx)"
      by auto
    from j js have r: "r = rec_op gf gt gs (srecs x ! i)" "smx = smaxxuid x" by simp_all
    from rel have len: "length (srecs x) = length (srecs x0)" by (simp add: replay_rel_def)
    from find_srec_bound[OF f] len have i: "i < length (srecs x0)" by simp
    from find_srec_keys[OF replay_rel_keys[OF keys rel], of t1 t2 c] f
    have fy: "find_srec t1 t2 (srecs y) c = Some i" by simp
    have "replay_jline junk line jl (y, c)
        = Inr (y\<lparr>srecs := (srecs y)[i := rec_op gf gt gs (srecs y ! i)], smaxxuid := smaxxuid y\<rparr>, c')"
      unfolding ry by (simp add: fy js c')
    with replay_rel_update[OF ops rel i] x' r show ?thesis by simp
  qed
qed

lemma replay_lines_rel:
  assumes keys: "map uid (srecs x0) = map uid (srecs y0)"
  shows "list_all safe_line bufs \<Longrightarrow> replay_rel x0 y0 x y
    \<Longrightarrow> replay_lines junk line bufs (x, c) = Inr (x', c')
    \<Longrightarrow> \<exists>y'. replay_lines junk line bufs (y, c) = Inr (y', c') \<and> replay_rel x0 y0 x' y'"
proof (induction bufs arbitrary: line x y c)
  case Nil
  then show ?case by simp
next
  case (Cons buf rest)
  from Cons.prems(3) obtain jl x1 c1 where
    ok: "line_ok buf" and p: "parse_jline (cstr buf) = Some jl"
    and s1: "replay_jline junk (Suc line) jl (x, c) = Inr (x1, c1)"
    and s2: "replay_lines junk (Suc line) rest (x1, c1) = Inr (x', c')"
    by (auto split: if_splits option.splits sum.splits)
  from Cons.prems(1) have "safe_line buf" and rest: "list_all safe_line rest"
    by simp_all
  with p have safe: "safe_jline jl" by (simp add: safe_line_def)
  from replay_jline_rel[OF keys safe Cons.prems(2) s1] obtain y1 where
    t1: "replay_jline junk (Suc line) jl (y, c) = Inr (y1, c1)" and r1: "replay_rel x0 y0 x1 y1"
    by blast
  from Cons.IH[OF rest r1 s2] obtain y' where
    t2: "replay_lines junk (Suc line) rest (y1, c1) = Inr (y', c')" and r2: "replay_rel x0 y0 x' y'"
    by blast
  from ok p t1 t2 have "replay_lines junk line (buf # rest) (y, c) = Inr (y', c')" by simp
  with r2 show ?case by blast
qed

lemma replay_rel_init:
  assumes "map uid (srecs x0) = map uid (srecs y0)"
  shows "replay_rel x0 y0 x0 y0"
proof -
  from assms have "length (map uid (srecs x0)) = length (map uid (srecs y0))" by simp
  then have "length (srecs y0) = length (srecs x0)" by simp
  then show ?thesis
    by (simp add: replay_rel_def rec_rel_def cell_rel_def tuid_rel_def st_rel_def)
qed

lemma replay_rel_same_keys:
  assumes "replay_rel x0 y0 x y"
  shows "map uid (srecs x0) = map uid (srecs x)"
proof (rule nth_equalityI)
  from assms show "length (map uid (srecs x0)) = length (map uid (srecs x))"
    by (simp add: replay_rel_def)
next
  fix i assume "i < length (map uid (srecs x0))"
  with assms have i: "i < length (srecs x0)" "i < length (srecs x)"
    by (simp_all add: replay_rel_def)
  with assms have "rec_rel (srecs x0 ! i) (srecs y0 ! i) (srecs x ! i) (srecs y ! i)"
    by (simp add: replay_rel_def)
  then have "uid (srecs x ! i) = uid (srecs x0 ! i)"
    unfolding rec_rel_def by (blast intro: untouched_uid)
  with i show "map uid (srecs x0) ! i = map uid (srecs x) ! i" by simp
qed

lemma sync_rec_eq:
  assumes "untouched a = untouched b" "flags a = flags b" "tuid a = tuid b" "status a = status b"
  shows "a = b"
  using assms unfolding untouched_def by (cases a, cases b) simp

lemma sync_vars_eq:
  assumes "unloaded a = unloaded b" "uidval a = uidval b" "maxuid a = maxuid b" "newuid a = newuid b"
    "smaxxuid a = smaxxuid b" "srecs a = srecs b"
  shows "a = b"
  using assms unfolding unloaded_def by (cases a, cases b) simp

lemma rec_rel_final:
  assumes "rec_rel x0 x x y"
  shows "y = x"
proof -
  from assms have "untouched y = untouched x" "flags y = flags x" "tuid y = tuid x" "status y = status x"
    unfolding rec_rel_def by (blast dest: cell_rel_final tuid_rel_final st_rel_final)+
  then show ?thesis by (rule sync_rec_eq)
qed

lemma replay_rel_final:
  assumes "replay_rel x0 x x y"
  shows "y = x"
proof (rule sync_vars_eq)
  from assms show "unloaded y = unloaded x" "smaxxuid y = smaxxuid x"
    by (simp_all add: replay_rel_def)
  from assms show "uidval y = uidval x"
    unfolding replay_rel_def by (blast dest: cell_rel_final)
  from assms have "fst (maxuid y) = fst (maxuid x)" "snd (maxuid y) = snd (maxuid x)"
    unfolding replay_rel_def by (blast dest: cell_rel_final)+
  then show "maxuid y = maxuid x" by (rule prod_eqI)
  from assms have "fst (newuid y) = fst (newuid x)" "snd (newuid y) = snd (newuid x)"
    unfolding replay_rel_def by (blast dest: cell_rel_final)+
  then show "newuid y = newuid x" by (rule prod_eqI)
  show "srecs y = srecs x"
  proof (rule nth_equalityI)
    from assms show "length (srecs y) = length (srecs x)" by (simp add: replay_rel_def)
  next
    fix i assume "i < length (srecs y)"
    with assms have "rec_rel (srecs x0 ! i) (srecs x ! i) (srecs x ! i) (srecs y ! i)"
      by (simp add: replay_rel_def)
    then show "srecs y ! i = srecs x ! i" by (rule rec_rel_final)
  qed
qed

lemma replay_lines_idempotent:
  assumes safe: "list_all safe_line bufs"
    and run: "replay_lines junk line bufs (sv, c) = Inr (sv', c')"
  shows "replay_lines junk line bufs (sv', c) = Inr (sv', c')"
proof -
  from replay_lines_rel[OF refl safe replay_rel_init[OF refl] run] obtain z where
    "replay_rel sv sv sv' z" by blast
  then have keys: "map uid (srecs sv) = map uid (srecs sv')" by (rule replay_rel_same_keys)
  from replay_lines_rel[OF keys safe replay_rel_init[OF keys] run] obtain y' where
    r: "replay_lines junk line bufs (sv', c) = Inr (y', c')" and rel: "replay_rel sv sv' sv' y'"
    by blast
  from replay_rel_final[OF rel] r show ?thesis by simp
qed

text \<open>
  Claim C3 as stated fails. An entry \<^verbatim>\<open>+\<close> appends a record at every replay. An entry
  \<^verbatim>\<open>>\<close> changes the UID by which the same entry looks its record up, so the second replay
  stops with an error. An entry \<^verbatim>\<open>/\<close> reads the \<^verbatim>\<open>S_EXPIRE\<close> bit, which a later entry
  \<^verbatim>\<open>~\<close> of the first replay has set: the second replay sets \<^verbatim>\<open>S_EXPIRED\<close> and raises
  \<open>smaxxuid\<close>.
\<close>

theorem journal_replay_twice_counterexample:
  "replay_journal (ex_rec 0 0 0 0 []) ''2\<newline>+ 7 -2\<newline>'' ex_journal
     = Inr (ex_journal\<lparr>srecs := srecs ex_journal @ [ex_rec 7 (- 2) 0 0 []]\<rparr>)
   \<and> replay_journal (ex_rec 0 0 0 0 []) ''2\<newline>+ 7 -2\<newline>''
       (ex_journal\<lparr>srecs := srecs ex_journal @ [ex_rec 7 (- 2) 0 0 []]\<rparr>)
     = Inr (ex_journal\<lparr>srecs := srecs ex_journal @ [ex_rec 7 (- 2) 0 0 [], ex_rec 7 (- 2) 0 0 []]\<rparr>)
   \<and> replay_journal (ex_rec 0 0 0 0 []) ''2\<newline>> 6 -2 9\<newline>'' ex_journal
     = Inr (ex_journal\<lparr>srecs := [ex_rec 5 3 0 F_SEEN [], ex_rec 6 9 S_EXPIRED 0 (CHR 0x00 # ''BCDEFGHIJKL'')]\<rparr>)
   \<and> replay_journal (ex_rec 0 0 0 0 []) ''2\<newline>> 6 -2 9\<newline>''
       (ex_journal\<lparr>srecs := [ex_rec 5 3 0 F_SEEN [], ex_rec 6 9 S_EXPIRED 0 (CHR 0x00 # ''BCDEFGHIJKL'')]\<rparr>)
     = Inl (Nonexistent_entry 2)
   \<and> replay_journal (ex_rec 0 0 0 0 []) ''2\<newline>/ 5 3\<newline>~ 5 3 1\<newline>'' ex_journal
     = Inr (ex_journal\<lparr>srecs := [ex_rec 5 3 S_EXPIRE F_SEEN [], ex_rec 6 (- 2) S_EXPIRED 0 ''ABCDEFGHIJKL''],
                       smaxxuid := 0\<rparr>)
   \<and> replay_journal (ex_rec 0 0 0 0 []) ''2\<newline>/ 5 3\<newline>~ 5 3 1\<newline>''
       (ex_journal\<lparr>srecs := [ex_rec 5 3 S_EXPIRE F_SEEN [], ex_rec 6 (- 2) S_EXPIRED 0 ''ABCDEFGHIJKL''],
                   smaxxuid := 0\<rparr>)
     = Inr (ex_journal\<lparr>srecs := [ex_rec 5 3 (S_EXPIRE OR S_EXPIRED) F_SEEN [],
                                 ex_rec 6 (- 2) S_EXPIRED 0 ''ABCDEFGHIJKL''],
                       smaxxuid := 3\<rparr>)"
  by code_simp

text \<open>
  Claim C3, as amended. Replaying a journal is idempotent when each of its entries has one
  of the opcodes \<^verbatim>\<open>( ) { } | - * # & ~\<close> or the backslash: if the replay atop a context
  succeeds, the replay of the same journal atop the result succeeds and changes nothing,
  so the records, \<open>maxuid\<close>, \<open>newuid\<close>, \<open>uidval\<close> and \<open>smaxxuid\<close> after two replays are those
  after one.
\<close>

theorem safe_journal_replay_idempotent:
  assumes "list_all safe_line (tl (fgets_all txt))"
    and "replay_journal junk txt svars = Inr svars'"
  shows "replay_journal junk txt svars' = Inr svars'"
proof (cases "fgets_all txt")
  case Nil
  with assms(2) show ?thesis by (simp add: replay_journal_def)
next
  case (Cons buf rest)
  with assms(2) obtain c' where ok: "line_ok buf" and v: "take 2 buf = ''2\<newline>''"
    and run: "replay_lines junk 1 rest (svars, None) = Inr (svars', c')"
    by (auto simp add: replay_journal_def split: if_splits sum.splits)
  from assms(1) Cons have "list_all safe_line rest" by simp
  from replay_lines_idempotent[OF this run] ok v Cons show ?thesis
    by (simp add: replay_journal_def)
qed

theorem safe_journal_replay_idempotent_witness:
  "list_all safe_line (tl (fgets_all ex_safe_journal))
   \<and> replay_journal (ex_rec 0 0 0 0 []) ex_safe_journal ex_journal
     = Inr (ex_journal\<lparr>srecs := [ex_rec 5 3 S_EXPIRE F_FLAGGED [],
                                 ex_rec 6 (- 2) (S_EXPIRE OR S_EXPIRED) 0 (CHR 0x00 # ''BCDEFGHIJKL'')],
                       uidval := (1, 2), maxuid := (7, 3), smaxxuid := 0\<rparr>)
   \<and> replay_journal (ex_rec 0 0 0 0 []) ex_safe_journal
       (ex_journal\<lparr>srecs := [ex_rec 5 3 S_EXPIRE F_FLAGGED [],
                             ex_rec 6 (- 2) (S_EXPIRE OR S_EXPIRED) 0 (CHR 0x00 # ''BCDEFGHIJKL'')],
                   uidval := (1, 2), maxuid := (7, 3), smaxxuid := 0\<rparr>)
     = Inr (ex_journal\<lparr>srecs := [ex_rec 5 3 S_EXPIRE F_FLAGGED [],
                                 ex_rec 6 (- 2) (S_EXPIRE OR S_EXPIRED) 0 (CHR 0x00 # ''BCDEFGHIJKL'')],
                       uidval := (1, 2), maxuid := (7, 3), smaxxuid := 0\<rparr>)"
proof -
  have h1: "list_all safe_line (tl (fgets_all ex_safe_journal))"
    by code_simp
  have h2: "replay_journal (ex_rec 0 0 0 0 []) ex_safe_journal ex_journal
     = Inr (ex_journal\<lparr>srecs := [ex_rec 5 3 S_EXPIRE F_FLAGGED [],
                                 ex_rec 6 (- 2) (S_EXPIRE OR S_EXPIRED) 0 (CHR 0x00 # ''BCDEFGHIJKL'')],
                       uidval := (1, 2), maxuid := (7, 3), smaxxuid := 0\<rparr>)"
    by code_simp
  from safe_journal_replay_idempotent[OF h1 h2] h1 h2 show ?thesis by simp
qed

end
